theory Spec2Isabelle
  imports Main "HOL-Library.Word"
begin

section \<open>Data model of ploidy.c\<close>

text \<open>
  A C \<^verbatim>\<open>int\<close> that holds a ploidy value is a 32-bit word read as two's complement:
  the query compares such values with \<^verbatim>\<open>INT_MAX\<close> and with the sentinel \<^verbatim>\<open>-1\<close>, and the
  parser narrows a \<^verbatim>\<open>long\<close> into it. Comparisons of the source (\<^verbatim>\<open><\<close>, \<^verbatim>\<open>>\<close>) are the signed
  ones (\<open><s\<close>). Counters and identifiers of sex categories (\<^verbatim>\<open>nsex\<close>, \<^verbatim>\<open>sex\<close>) are
  \<open>int\<close>: the code only increments and compares them. A C string is the list of its
  characters before the terminating NUL, and a pointer into it is the suffix it points to.
\<close>

type_synonym cint = "32 word"

definition INT_MAX :: cint where
  "INT_MAX = 2147483647"

text \<open>\<^verbatim>\<open>sex_ploidy_t\<close> (ploidy.h): the payload stored with every region.\<close>

record sex_ploidy_t =
  sex :: int
  ploidy :: cint

text \<open>
  Modelled from the spec: \<^verbatim>\<open>reg_t\<close>, \<^verbatim>\<open>regidx_t\<close> and \<^verbatim>\<open>regitr_t\<close> belong to the interval index
  (htslib's regidx), which is not part of the sources. The spec treats it as a black box
  with two operations, "build index from records" and "find all stored records overlapping
  a point". A region is a coordinate range; the index is the list of the stored
  (chromosome, region, payload) entries in the order the index keeps them; an iterator is
  the list of the entries from its current position \<^verbatim>\<open>itr.i\<close> up to its end \<^verbatim>\<open>itr.n\<close>, so that
  \<^verbatim>\<open>itr.i++\<close> is the tail of the list.
\<close>

record reg_t =
  reg_start :: int
  reg_end :: int

type_synonym regidx_t = "(string \<times> reg_t \<times> sex_ploidy_t) list"

type_synonym regitr_t = "(reg_t \<times> sex_ploidy_t) list"

text \<open>
  Modelled from the spec: \<^verbatim>\<open>REGITR_OVERLAP(itr,from,to)\<close> and \<^verbatim>\<open>REGITR_PAYLOAD(itr,type)\<close>, macros
  of the interval index: the iterator is not exhausted and its current region overlaps
  the range; the payload of the current region.
\<close>

definition REGITR_OVERLAP :: "regitr_t \<Rightarrow> int \<Rightarrow> int \<Rightarrow> bool" where
  "REGITR_OVERLAP itr from to =
     (case itr of [] \<Rightarrow> False | (r, _) # _ \<Rightarrow> reg_start r \<le> to \<and> from \<le> reg_end r)"

definition REGITR_PAYLOAD :: "regitr_t \<Rightarrow> sex_ploidy_t" where
  "REGITR_PAYLOAD itr = snd (hd itr)"

text \<open>
  Modelled from the spec: \<^verbatim>\<open>regidx_overlap(idx,seq,from,to,&itr)\<close>, "ask the interval index for
  all stored intervals overlapping the single point": the return value says whether there
  is one, and the iterator runs over them in the order of the index.
\<close>

definition regidx_overlap :: "regidx_t \<Rightarrow> string \<Rightarrow> int \<Rightarrow> int \<Rightarrow> int \<times> regitr_t" where
  "regidx_overlap index seq from to =
     (let hits = map snd (filter (\<lambda>(c, r, _). c = seq \<and> reg_start r \<le> to \<and> from \<le> reg_end r) index)
      in (if hits = [] then 0 else 1, hits))"

text \<open>
  Modelled from the spec: the string-to-integer dictionary (htslib's khash_str2int), "a
  black-box associative map". \<^verbatim>\<open>khash_str2int_get\<close> looks a key up (\<open>None\<close> is its non-zero
  return); \<^verbatim>\<open>khash_str2int_inc\<close> adds a new key with the next sequential value, the number
  of keys stored before. The dictionary is the list of its (key, value) pairs in the
  order of insertion.
\<close>

type_synonym str2int = "(string \<times> int) list"

definition khash_str2int_init :: str2int where
  "khash_str2int_init = []"

definition khash_str2int_get :: "str2int \<Rightarrow> string \<Rightarrow> int option" where
  "khash_str2int_get h s = map_of h s"

definition khash_str2int_inc :: "str2int \<Rightarrow> string \<Rightarrow> int \<times> str2int" where
  "khash_str2int_inc h s =
     (case map_of h s of
        Some v \<Rightarrow> (v, h)
      | None \<Rightarrow> (int (length h), h @ [(s, int (length h))]))"

text \<open>
  \<^verbatim>\<open>struct _ploidy_t\<close>. The field \<^verbatim>\<open>msex\<close> (allocated capacity of \<^verbatim>\<open>id2sex\<close>) and the scratch
  buffer \<^verbatim>\<open>tmp_str\<close> describe memory only and are left out: \<^verbatim>\<open>id2sex\<close> is a list that grows by
  one element where the source calls \<^verbatim>\<open>hts_expand0\<close> and stores at index \<^verbatim>\<open>nsex-1\<close>. The
  fields \<^verbatim>\<open>min\<close> and \<^verbatim>\<open>max\<close> are named \<open>min_pld\<close> and \<open>max_pld\<close>.
\<close>

record ploidy_t =
  nsex :: int
  dflt :: cint
  min_pld :: cint
  max_pld :: cint
  idx :: regidx_t
  sex2id :: str2int
  id2sex :: "string list"

section \<open>Accessors\<close>

definition ploidy_regions :: "ploidy_t \<Rightarrow> regidx_t" where
  "ploidy_regions pl = idx pl"

definition ploidy_nsex :: "ploidy_t \<Rightarrow> int" where
  "ploidy_nsex pl = nsex pl"

text \<open>
  \<^verbatim>\<open>ploidy_id2sex\<close>: \<open>None\<close> is the NULL of the source. The array holds \<^verbatim>\<open>nsex\<close> names in
  every table the code builds; an index beyond the stored names is \<open>None\<close> as well.
\<close>

definition ploidy_id2sex :: "ploidy_t \<Rightarrow> int \<Rightarrow> string option" where
  "ploidy_id2sex pl i =
     (if i < 0 \<or> i \<ge> nsex pl then None
      else if nat i < length (id2sex pl) then Some (id2sex pl ! nat i) else None)"

definition ploidy_sex2id :: "ploidy_t \<Rightarrow> string \<Rightarrow> int" where
  "ploidy_sex2id pl s =
     (case khash_str2int_get (sex2id pl) s of None \<Rightarrow> -1 | Some i \<Rightarrow> i)"

text \<open>\<^verbatim>\<open>ploidy_add_sex\<close> returns the id and the table as it leaves it.\<close>

definition ploidy_add_sex :: "ploidy_t \<Rightarrow> string \<Rightarrow> int \<times> ploidy_t" where
  "ploidy_add_sex pl s =
     (case khash_str2int_get (sex2id pl) s of
        Some i \<Rightarrow> (i, pl)
      | None \<Rightarrow>
          (let pl1 = pl\<lparr>nsex := nsex pl + 1\<rparr>;
               pl2 = pl1\<lparr>id2sex := id2sex pl1 @ [s]\<rparr>;
               (i, h) = khash_str2int_inc (sex2id pl2) s
           in (i, pl2\<lparr>sex2id := h\<rparr>)))"

definition ploidy_max :: "ploidy_t \<Rightarrow> cint" where
  "ploidy_max pl = (if max_pld pl <s dflt pl then dflt pl else max_pld pl)"

definition ploidy_min :: "ploidy_t \<Rightarrow> cint" where
  "ploidy_min pl = (if dflt pl <s min_pld pl then dflt pl else min_pld pl)"

section \<open>The point query\<close>

text \<open>
  The caller's buffers: \<^verbatim>\<open>sex2ploidy\<close> is \<open>None\<close> for a NULL pointer and otherwise the
  array the pointer refers to, with the length the caller gave it; \<^verbatim>\<open>min\<close> and \<^verbatim>\<open>max\<close> are
  \<open>None\<close> for NULL and otherwise the integer pointed to. A store outside the array is
  undefined behaviour in C and the fault \<open>OutOfBounds\<close> here.
\<close>

datatype fault = OutOfBounds

record query_out =
  q_ret :: int
  q_sex2ploidy :: "cint list option"
  q_min :: "cint option"
  q_max :: "cint option"

definition store :: "cint list \<Rightarrow> int \<Rightarrow> cint \<Rightarrow> fault + cint list" where
  "store buf i v =
     (if 0 \<le> i \<and> i < int (length buf) then Inr (buf[nat i := v]) else Inl OutOfBounds)"

text \<open>\<^verbatim>\<open>for (i=0; i<ploidy->nsex; i++) sex2ploidy[i] = ploidy->dflt;\<close> from index \<open>i\<close> on.\<close>

function fill_dflt :: "int \<Rightarrow> int \<Rightarrow> cint \<Rightarrow> cint list \<Rightarrow> fault + cint list" where
  "fill_dflt i n d buf =
     (if i < n then
        (case store buf i d of
           Inl e \<Rightarrow> Inl e
         | Inr buf' \<Rightarrow> fill_dflt (i + 1) n d buf')
      else Inr buf)"
  by pat_completeness auto
termination
  by (relation "measure (\<lambda>(i, n, d, buf). nat (n - i))") auto

declare fill_dflt.simps [simp del]

definition fill_opt :: "int \<Rightarrow> cint \<Rightarrow> cint list option \<Rightarrow> fault + cint list option" where
  "fill_opt n d sex2ploidy =
     (case sex2ploidy of
        None \<Rightarrow> Inr None
      | Some buf \<Rightarrow> (case fill_dflt 0 n d buf of Inl e \<Rightarrow> Inl e | Inr buf' \<Rightarrow> Inr (Some buf')))"

text \<open>
  The \<^verbatim>\<open>while ( REGITR_OVERLAP(itr,pos,pos) )\<close> loop. Its state is the vector and the two
  scratch bounds \<^verbatim>\<open>_min\<close> and \<^verbatim>\<open>_max\<close>.
\<close>

function query_loop ::
  "cint \<Rightarrow> int \<Rightarrow> regitr_t \<Rightarrow> cint list option \<times> cint \<times> cint
     \<Rightarrow> fault + (cint list option \<times> cint \<times> cint)" where
  "query_loop d pos itr st =
     (if REGITR_OVERLAP itr pos pos then
        (let sx = sex (REGITR_PAYLOAD itr);
             pld = ploidy (REGITR_PAYLOAD itr);
             (sex2ploidy, mn, mx) = st
         in if pld \<noteq> d then
              (case (case sex2ploidy of
                       None \<Rightarrow> Inr None
                     | Some buf \<Rightarrow>
                         (case store buf sx pld of Inl e \<Rightarrow> Inl e | Inr buf' \<Rightarrow> Inr (Some buf'))) of
                 Inl e \<Rightarrow> Inl e
               | Inr sex2ploidy' \<Rightarrow>
                   query_loop d pos (tl itr)
                     (sex2ploidy', (if pld <s mn then pld else mn), (if mx <s pld then pld else mx)))
            else query_loop d pos (tl itr) st)
      else Inr st)"
  by pat_completeness auto
termination
  by (relation "measure (\<lambda>(d, pos, itr, st). length itr)")
     (auto simp: REGITR_OVERLAP_def split: list.splits)

declare query_loop.simps [simp del]

definition ploidy_query ::
  "ploidy_t \<Rightarrow> string \<Rightarrow> int \<Rightarrow> cint list option \<Rightarrow> cint option \<Rightarrow> cint option
     \<Rightarrow> fault + query_out" where
  "ploidy_query pl seq pos sex2ploidy mn mx =
     (let (ret, itr) = regidx_overlap (idx pl) seq pos pos
      in if sex2ploidy = None \<and> mn = None \<and> mx = None then
           Inr \<lparr>q_ret = ret, q_sex2ploidy = None, q_min = None, q_max = None\<rparr>
         else if ret = 0 then
           (case fill_opt (nsex pl) (dflt pl) sex2ploidy of
              Inl e \<Rightarrow> Inl e
            | Inr v \<Rightarrow>
                Inr \<lparr>q_ret = 0, q_sex2ploidy = v,
                     q_min = map_option (\<lambda>_. dflt pl) mn,
                     q_max = map_option (\<lambda>_. dflt pl) mx\<rparr>)
         else
           (case fill_opt (nsex pl) (dflt pl) sex2ploidy of
              Inl e \<Rightarrow> Inl e
            | Inr v0 \<Rightarrow>
                (case query_loop (dflt pl) pos itr (v0, INT_MAX, -1) of
                   Inl e \<Rightarrow> Inl e
                 | Inr (v, mn1, mx1) \<Rightarrow>
                     (let (mn2, mx2) = (if mx1 = -1 then (dflt pl, dflt pl) else (mn1, mx1))
                      in Inr \<lparr>q_ret = 1, q_sex2ploidy = v,
                              q_min = map_option (\<lambda>_. mn2) mn,
                              q_max = map_option (\<lambda>_. mx2) mx\<rparr>))))"

section \<open>The record parser\<close>

text \<open>
  \<^verbatim>\<open>error(...)\<close> (bcftools.h) prints its message and ends the process: a call of it is the
  outcome \<open>Abort\<close> with the message, everything else returns.
\<close>

datatype 'a outcome = Abort string | Return 'a

text \<open>\<^verbatim>\<open>isspace\<close> of the C locale: space, and the control characters from tab to carriage return.\<close>

definition isspace :: "char \<Rightarrow> bool" where
  "isspace c =
     (c = CHR '' '' \<or> c = CHR 0x09 \<or> c = CHR 0x0A \<or> c = CHR 0x0B \<or> c = CHR 0x0C \<or> c = CHR 0x0D)"

definition isdigit :: "char \<Rightarrow> bool" where
  "isdigit c = (48 \<le> (of_char c :: nat) \<and> (of_char c :: nat) \<le> 57)"

text \<open>\<^verbatim>\<open>while ( *ss && isspace(*ss) ) ss++;\<close> and \<^verbatim>\<open>while ( *ss && !isspace(*ss) ) ss++;\<close>\<close>

definition skip_space :: "string \<Rightarrow> string" where
  "skip_space ss = dropWhile isspace ss"

definition skip_field :: "string \<Rightarrow> string" where
  "skip_field ss = dropWhile (\<lambda>c. \<not> isspace c) ss"

text \<open>
  Modelled from the spec: \<^verbatim>\<open>strtol(nptr,&endptr,10)\<close> of the C library, "parsed as a base-10
  integer (leading whitespace skipped, trailing content ignored)": optional white space,
  an optional sign, decimal digits; the value is clamped to the range of \<^verbatim>\<open>long\<close> (64 bits);
  without a digit the value is 0 and the end pointer is \<^verbatim>\<open>nptr\<close>. The result is the value and
  the end pointer.
\<close>

definition LONG_MAX :: int where
  "LONG_MAX = 9223372036854775807"

definition LONG_MIN :: int where
  "LONG_MIN = - 9223372036854775808"

definition strtol :: "string \<Rightarrow> int \<times> string" where
  "strtol nptr =
     (let s = dropWhile isspace nptr;
          neg = (s \<noteq> [] \<and> hd s = CHR ''-'');
          t = (if s \<noteq> [] \<and> (hd s = CHR ''-'' \<or> hd s = CHR ''+'') then tl s else s);
          ds = takeWhile isdigit t;
          n = foldl (\<lambda>a c. 10 * a + (int (of_char c) - 48)) 0 ds;
          v = (if neg then - n else n)
      in if ds = [] then (0, nptr) else (max LONG_MIN (min LONG_MAX v), dropWhile isdigit t))"

text \<open>
  The coordinate parser \<^verbatim>\<open>regidx_parse_tab\<close> belongs to the interval index and is not part
  of the sources: \<open>ploidy_parse\<close> takes it as a parameter. It gives its return value (0 when
  it accepts the line), the chromosome name and the region.
\<close>

type_synonym parse_tab = "string \<Rightarrow> int \<times> string \<times> reg_t"

text \<open>The \<^verbatim>\<open>for (i=0; i<3; i++)\<close> loop; \<open>None\<close> is its \<^verbatim>\<open>return -2\<close>.\<close>

fun skip_fields :: "nat \<Rightarrow> string \<Rightarrow> string option" where
  "skip_fields 0 ss = Some ss"
| "skip_fields (Suc k) ss =
     (let ss1 = skip_field ss
      in if ss1 = [] then None else skip_fields k (skip_space ss1))"

definition could_not_parse :: "string \<Rightarrow> string" where
  "could_not_parse line = ''Could not parse: '' @ line @ [CHR 0x0A]"

text \<open>
  Lines 75 to 81 of \<^verbatim>\<open>ploidy_parse\<close>: the sex token is looked up and, when it is new,
  registered with the next id.
\<close>

definition parse_sex :: "string \<Rightarrow> sex_ploidy_t \<Rightarrow> ploidy_t \<Rightarrow> sex_ploidy_t \<times> ploidy_t" where
  "parse_sex tmp_str sp pl =
     (case khash_str2int_get (sex2id pl) tmp_str of
        Some i \<Rightarrow> (sp\<lparr>sex := i\<rparr>, pl)
      | None \<Rightarrow>
          (let pl1 = pl\<lparr>nsex := nsex pl + 1\<rparr>;
               pl2 = pl1\<lparr>id2sex := id2sex pl1 @ [tmp_str]\<rparr>;
               (i, h) = khash_str2int_inc (sex2id pl2) tmp_str
           in (sp\<lparr>sex := i\<rparr>, pl2\<lparr>sex2id := h\<rparr>)))"

text \<open>Lines 88 and 89: the bounds of the table follow the parsed ploidy.\<close>

definition update_bounds :: "cint \<Rightarrow> ploidy_t \<Rightarrow> ploidy_t" where
  "update_bounds p pl =
     (let pl1 = (if p <s min_pld pl then pl\<lparr>min_pld := p\<rparr> else pl)
      in if max_pld pl1 <s p then pl1\<lparr>max_pld := p\<rparr> else pl1)"

text \<open>
  \<^verbatim>\<open>ploidy_parse\<close>. The result holds the return value, the chromosome and region that the
  coordinate parser wrote, the payload and the table. The narrowing of the \<^verbatim>\<open>long\<close> of
  \<^verbatim>\<open>strtol\<close> into the \<^verbatim>\<open>int\<close> field keeps its low 32 bits.
\<close>

definition ploidy_parse ::
  "parse_tab \<Rightarrow> string \<Rightarrow> sex_ploidy_t \<Rightarrow> ploidy_t
     \<Rightarrow> (int \<times> string \<times> reg_t \<times> sex_ploidy_t \<times> ploidy_t) outcome" where
  "ploidy_parse regidx_parse_tab line payload pl =
     (let (ret, chr, reg) = regidx_parse_tab line
      in if ret \<noteq> 0 then Return (ret, chr, reg, payload, pl)
         else
           (case skip_fields 3 (skip_space line) of
              None \<Rightarrow> Return (- 2, chr, reg, payload, pl)
            | Some ss \<Rightarrow>
                if ss = [] then Return (- 2, chr, reg, payload, pl)
                else
                  (let se = skip_field ss
                   in if se = [] \<or> se = ss then Abort (could_not_parse line)
                      else
                        (let tmp_str = take (length ss - length se) ss;
                             (sp, pl1) = parse_sex tmp_str payload pl
                         in if skip_space se = [] then Abort (could_not_parse line)
                            else
                              (let (v, se') = strtol se;
                                   sp' = sp\<lparr>ploidy := word_of_int v\<rparr>
                               in if se = se' then Abort (could_not_parse line)
                                  else Return (0, chr, reg, sp', update_bounds (ploidy sp') pl1))))))"

section \<open>Construction\<close>

text \<open>
  Modelled from the spec: \<^verbatim>\<open>regidx_insert(idx,line)\<close> of the interval index, the
  "line-insertion/parse path": the line goes through the parser callback, here
  \<open>ploidy_parse\<close>, with the payload buffer of the index (its old content is never read and
  is cleared here); a return value -1 of the callback skips the line,
  -2 makes the insertion fail (-1), and otherwise the entry is stored. A NULL line,
  \<open>None\<close>, is the "final empty/terminator line" that finishes the index.
\<close>

definition regidx_insert ::
  "parse_tab \<Rightarrow> regidx_t \<Rightarrow> string option \<Rightarrow> ploidy_t \<Rightarrow> (int \<times> regidx_t \<times> ploidy_t) outcome" where
  "regidx_insert tab index line pl =
     (case line of
        None \<Rightarrow> Return (0, index, pl)
      | Some l \<Rightarrow>
          (case ploidy_parse tab l \<lparr>sex = 0, ploidy = 0\<rparr> pl of
             Abort m \<Rightarrow> Abort m
           | Return (ret, chr, reg, sp, pl') \<Rightarrow>
               if ret = - 2 then Return (- 1, index, pl')
               else if ret = - 1 then Return (0, index, pl')
               else Return (0, index @ [(chr, reg, sp)], pl')))"

text \<open>
  Modelled from the spec: \<^verbatim>\<open>regidx_init(fname,parser,...)\<close>. "The interval index is built by
  streaming every input line through the Record Parser; at the end the index is finalized",
  and there is no index (\<open>None\<close>, the NULL of the source) "if the file cannot be
  opened/parsed as an index". A file name is modelled by what it names: no name (NULL,
  which gives an empty index), a file that cannot be read, or the lines of the file.
\<close>

datatype fname = NoFile | Unreadable | File "string list"

fun regidx_load ::
  "parse_tab \<Rightarrow> string list \<Rightarrow> regidx_t \<Rightarrow> ploidy_t \<Rightarrow> (regidx_t option \<times> ploidy_t) outcome" where
  "regidx_load tab [] index pl =
     (case regidx_insert tab index None pl of
        Abort m \<Rightarrow> Abort m
      | Return (r, index', pl') \<Rightarrow> Return (Some index', pl'))"
| "regidx_load tab (l # ls) index pl =
     (case regidx_insert tab index (Some l) pl of
        Abort m \<Rightarrow> Abort m
      | Return (r, index', pl') \<Rightarrow>
          if r \<noteq> 0 then Return (None, pl') else regidx_load tab ls index' pl')"

definition regidx_init :: "parse_tab \<Rightarrow> fname \<Rightarrow> ploidy_t \<Rightarrow> (regidx_t option \<times> ploidy_t) outcome" where
  "regidx_init tab f pl =
     (case f of
        NoFile \<Rightarrow> Return (Some [], pl)
      | Unreadable \<Rightarrow> Return (None, pl)
      | File ls \<Rightarrow> regidx_load tab ls [] pl)"

text \<open>
  The table after \<^verbatim>\<open>calloc\<close> and lines 99 and 100 (115 and 116): every field is zero but
  the three ploidy values and the empty dictionary. A failing allocation is not modelled.
\<close>

definition ploidy_new :: "cint \<Rightarrow> ploidy_t" where
  "ploidy_new d =
     \<lparr>nsex = 0, dflt = d, min_pld = d, max_pld = d, idx = [],
      sex2id = khash_str2int_init, id2sex = []\<rparr>"

text \<open>\<^verbatim>\<open>ploidy_init\<close>: \<open>Return None\<close> is the NULL handle.\<close>

definition ploidy_init :: "parse_tab \<Rightarrow> fname \<Rightarrow> cint \<Rightarrow> ploidy_t option outcome" where
  "ploidy_init tab f d =
     (case regidx_init tab f (ploidy_new d) of
        Abort m \<Rightarrow> Abort m
      | Return (None, pld) \<Rightarrow> Return None
      | Return (Some index, pld) \<Rightarrow> Return (Some (pld\<lparr>idx := index\<rparr>)))"

text \<open>
  The \<^verbatim>\<open>while ( *ss )\<close> loop of \<^verbatim>\<open>ploidy_init_string\<close>. The return value of
  \<^verbatim>\<open>regidx_insert\<close> is dropped, as in the source.
\<close>

function init_string_loop ::
  "parse_tab \<Rightarrow> string \<Rightarrow> regidx_t \<Rightarrow> ploidy_t \<Rightarrow> (regidx_t \<times> ploidy_t) outcome" where
  "init_string_loop tab ss index pl =
     (if ss = [] then Return (index, pl)
      else
        (let ss1 = dropWhile isspace ss;
             se = dropWhile (\<lambda>c. c \<noteq> CHR 0x0D \<and> c \<noteq> CHR 0x0A) ss1;
             tmp = take (length ss1 - length se) ss1
         in case regidx_insert tab index (Some tmp) pl of
              Abort m \<Rightarrow> Abort m
            | Return (r, index', pl') \<Rightarrow> init_string_loop tab (dropWhile isspace se) index' pl'))"
  by pat_completeness auto

lemma init_string_loop_shorter:
  assumes "ss \<noteq> []"
  shows "length (dropWhile isspace
           (dropWhile (\<lambda>c. c \<noteq> CHR 0x0D \<and> c \<noteq> CHR 0x0A) (dropWhile isspace ss))) < length ss"
proof (cases ss)
  case Nil
  with assms show ?thesis by simp
next
  case (Cons c cs)
  have le: "length (dropWhile P xs) \<le> length xs" for P and xs :: string
    by (rule length_dropWhile_le)
  show ?thesis
  proof (cases "isspace c")
    case True
    have "length (dropWhile isspace
           (dropWhile (\<lambda>c. c \<noteq> CHR 0x0D \<and> c \<noteq> CHR 0x0A) (dropWhile isspace cs))) \<le> length cs"
      by (meson le order_trans)
    with True Cons show ?thesis by simp
  next
    case False
    then have "c \<noteq> CHR 0x0D \<and> c \<noteq> CHR 0x0A" by (auto simp: isspace_def)
    moreover have "length (dropWhile isspace
           (dropWhile (\<lambda>c. c \<noteq> CHR 0x0D \<and> c \<noteq> CHR 0x0A) cs)) \<le> length cs"
      by (meson le order_trans)
    ultimately show ?thesis using False Cons by simp
  qed
qed

termination init_string_loop
  by (relation "measure (\<lambda>(tab, ss, index, pl). length ss)")
     (simp_all add: init_string_loop_shorter)

declare init_string_loop.simps [simp del]

text \<open>
  \<^verbatim>\<open>ploidy_init_string\<close>: the index starts empty and is finished by the NULL line. With no
  file name \<open>regidx_init\<close> always gives an index (a failing allocation apart), so the case
  of a missing index is never taken.
\<close>

definition ploidy_init_string :: "parse_tab \<Rightarrow> string \<Rightarrow> cint \<Rightarrow> ploidy_t option outcome" where
  "ploidy_init_string tab str d =
     (case regidx_init tab NoFile (ploidy_new d) of
        Abort m \<Rightarrow> Abort m
      | Return (index0, pld) \<Rightarrow>
          (case init_string_loop tab str (case index0 of None \<Rightarrow> [] | Some i \<Rightarrow> i) pld of
             Abort m \<Rightarrow> Abort m
           | Return (index1, pld1) \<Rightarrow>
               (case regidx_insert tab index1 None pld1 of
                  Abort m \<Rightarrow> Abort m
                | Return (r, index2, pld2) \<Rightarrow> Return (Some (pld2\<lparr>idx := index2\<rparr>)))))"

section \<open>Notions of the specification\<close>

text \<open>
  The stored records that overlap a point, in the order of the index: what the spec calls
  "all stored intervals overlapping the single point".
\<close>

definition overlapping :: "regidx_t \<Rightarrow> string \<Rightarrow> int \<Rightarrow> sex_ploidy_t list" where
  "overlapping index seq pos =
     map (\<lambda>(c, r, p). p) (filter (\<lambda>(c, r, p). c = seq \<and> reg_start r \<le> pos \<and> pos \<le> reg_end r) index)"

text \<open>
  The caller "must size its buffer accordingly": \<open>fits\<close> says that the vector, when one is
  passed, has a slot for every registered sex category and for the sex id of every
  overlapping record that is written to it. \<open>filled\<close> is the vector after its first
  \<^verbatim>\<open>nsex\<close> slots were set to the default ploidy, and \<open>slot_value\<close> the ploidy of the last
  overlapping record of a sex category that differs from the default, or the default when
  there is none.
\<close>

definition fits :: "ploidy_t \<Rightarrow> string \<Rightarrow> int \<Rightarrow> cint list option \<Rightarrow> bool" where
  "fits pl seq pos sex2ploidy =
     (case sex2ploidy of
        None \<Rightarrow> True
      | Some buf \<Rightarrow>
          nsex pl \<le> int (length buf) \<and>
          list_all (\<lambda>p. ploidy p \<noteq> dflt pl \<longrightarrow> 0 \<le> sex p \<and> sex p < int (length buf))
            (overlapping (idx pl) seq pos))"

definition filled :: "ploidy_t \<Rightarrow> cint list \<Rightarrow> cint list" where
  "filled pl buf = replicate (nat (nsex pl)) (dflt pl) @ drop (nat (nsex pl)) buf"

definition slot_value :: "cint \<Rightarrow> sex_ploidy_t list \<Rightarrow> int \<Rightarrow> cint" where
  "slot_value d recs s =
     (case filter (\<lambda>p. sex p = s \<and> ploidy p \<noteq> d) recs of
        [] \<Rightarrow> d
      | ps \<Rightarrow> ploidy (last ps))"


text \<open>
  The registry keeps every registered name in \<^verbatim>\<open>id2sex\<close>, in the order of registration;
  \<open>registry_ok\<close> says that the keys of the dictionary \<^verbatim>\<open>sex2id\<close> are these names. A name was
  never registered when it is not in \<^verbatim>\<open>id2sex\<close>.
\<close>

definition registry_ok :: "ploidy_t \<Rightarrow> bool" where
  "registry_ok pl = (map fst (sex2id pl) = id2sex pl)"

text \<open>
  The number of "non-empty whitespace-delimited tokens" of a line; the flag says whether
  the scan is inside a token.
\<close>

fun count_tokens :: "bool \<Rightarrow> string \<Rightarrow> nat" where
  "count_tokens inside [] = 0"
| "count_tokens inside (c # cs) =
     (if isspace c then count_tokens False cs
      else (if inside then 0 else 1) + count_tokens True cs)"

definition ntokens :: "string \<Rightarrow> nat" where
  "ntokens line = count_tokens False line"

section \<open>The loops of the query\<close>

lemma query_loop_Nil: "query_loop d pos [] st = Inr st"
  by (simp add: query_loop.simps [of d pos "[]"] REGITR_OVERLAP_def)

lemma query_loop_Cons:
  "query_loop d pos ((r, p) # itr) (v, mn, mx) =
     (if reg_start r \<le> pos \<and> pos \<le> reg_end r then
        (if ploidy p \<noteq> d then
           (case (case v of None \<Rightarrow> Inr None
                  | Some buf \<Rightarrow> (case store buf (sex p) (ploidy p) of Inl e \<Rightarrow> Inl e | Inr buf' \<Rightarrow> Inr (Some buf'))) of
              Inl e \<Rightarrow> Inl e
            | Inr v' \<Rightarrow> query_loop d pos itr
                 (v', (if ploidy p <s mn then ploidy p else mn), (if mx <s ploidy p then ploidy p else mx)))
         else query_loop d pos itr (v, mn, mx))
      else Inr (v, mn, mx))"
  by (simp add: query_loop.simps [of d pos "(r, p) # itr"] REGITR_OVERLAP_def REGITR_PAYLOAD_def Let_def
      split: sum.splits option.splits)

lemma fill_dflt_take:
  "0 \<le> i \<Longrightarrow> i \<le> n \<Longrightarrow> n \<le> int (length buf) \<Longrightarrow>
   fill_dflt i n d buf = Inr (take (nat i) buf @ replicate (nat (n - i)) d @ drop (nat n) buf)"
proof (induction i n d buf rule: fill_dflt.induct)
  case (1 i n d buf)
  show ?case
  proof (cases "i < n")
    case False
    then have "fill_dflt i n d buf = Inr buf" by (subst fill_dflt.simps) simp
    moreover have "i = n" using False 1(3) by simp
    ultimately show ?thesis using 1(2,4) by simp
  next
    case True
    have st: "store buf i d = Inr (buf[nat i := d])"
      using True 1(2,4) by (simp add: store_def)
    have ih: "fill_dflt (i + 1) n d (buf[nat i := d]) =
        Inr (take (nat (i + 1)) (buf[nat i := d]) @ replicate (nat (n - (i + 1))) d @ drop (nat n) (buf[nat i := d]))"
      using 1(1) [OF True st] True 1(2,4) by simp
    have a: "nat (i + 1) = Suc (nat i)" using 1(2) by simp
    have b: "nat (n - i) = Suc (nat (n - (i + 1)))" using True by simp
    have c: "nat i < length buf" using True 1(2,4) by simp
    have d: "nat i < nat n" using True 1(2) by simp
    show ?thesis
      unfolding fill_dflt.simps [of i n d buf] using True st ih c d
      by (simp add: a b take_Suc_conv_app_nth replicate_app_Cons_same)
  qed
qed

lemma fill_dflt_neg: "n \<le> 0 \<Longrightarrow> fill_dflt 0 n d buf = Inr buf"
  by (simp add: fill_dflt.simps [of 0 n])

lemma regidx_overlap_ret:
  "fst (regidx_overlap index seq pos pos) = (if overlapping index seq pos = [] then 0 else 1)"
  by (simp add: regidx_overlap_def overlapping_def Let_def)

lemma regidx_overlap_payloads:
  "map snd (snd (regidx_overlap index seq pos pos)) = overlapping index seq pos"
  by (induction index) (auto simp: regidx_overlap_def overlapping_def Let_def)

lemma regidx_overlap_hits:
  "(r, p) \<in> set (snd (regidx_overlap index seq pos pos)) \<Longrightarrow> reg_start r \<le> pos \<and> pos \<le> reg_end r"
  by (auto simp: regidx_overlap_def Let_def)

lemma minmax_step:
  "mx = -1 \<or> mn \<le>s mx \<Longrightarrow>
   (if mx <s p then p else mx) = -1 \<or> (if p <s mn then p else mn) \<le>s (if mx <s p then p else mx)"
  by (auto simp: word_sle_eq word_sless_alt)

lemma query_loop_bounds:
  "query_loop d pos itr (v, mn, mx) = Inr (v', mn', mx') \<Longrightarrow> mx = -1 \<or> mn \<le>s mx \<Longrightarrow>
   mx' = -1 \<or> mn' \<le>s mx'"
proof (induction itr arbitrary: v mn mx)
  case Nil
  then show ?case by (simp add: query_loop_Nil)
next
  case (Cons e itr)
  obtain r p where e: "e = (r, p)" by (cases e)
  show ?case
  proof (cases "reg_start r \<le> pos \<and> pos \<le> reg_end r")
    case False
    with Cons.prems show ?thesis by (simp add: e query_loop_Cons)
  next
    case ov: True
    show ?thesis
    proof (cases "ploidy p = d")
      case True
      with Cons.prems ov have "query_loop d pos itr (v, mn, mx) = Inr (v', mn', mx')"
        by (simp add: e query_loop_Cons)
      then show ?thesis using Cons.IH Cons.prems(2) by blast
    next
      case False
      with Cons.prems(1) ov obtain v1 where
        "query_loop d pos itr (v1, (if ploidy p <s mn then ploidy p else mn),
            (if mx <s ploidy p then ploidy p else mx)) = Inr (v', mn', mx')"
        by (auto simp: e query_loop_Cons split: sum.splits)
      then show ?thesis using Cons.IH minmax_step [OF Cons.prems(2)] by blast
    qed
  qed
qed

lemma query_loop_all_default:
  "\<forall>(r, p) \<in> set itr. ploidy p = d \<Longrightarrow> query_loop d pos itr st = Inr st"
proof (induction itr)
  case Nil
  show ?case by (simp add: query_loop_Nil)
next
  case (Cons e itr)
  obtain r p where e: "e = (r, p)" by (cases e)
  obtain v mn mx where st: "st = (v, mn, mx)" by (cases st)
  from Cons show ?case by (simp add: e st query_loop_Cons)
qed

lemma query_loop_None:
  "\<exists>mn' mx'. query_loop d pos itr (None, mn, mx) = Inr (None, mn', mx')"
proof (induction itr arbitrary: mn mx)
  case Nil
  show ?case by (simp add: query_loop_Nil)
next
  case (Cons e itr)
  obtain r p where e: "e = (r, p)" by (cases e)
  show ?case using Cons.IH by (simp add: e query_loop_Cons)
qed

lemma query_loop_vector:
  assumes "\<forall>(r, p) \<in> set itr. reg_start r \<le> pos \<and> pos \<le> reg_end r"
    and "\<forall>(r, p) \<in> set itr. ploidy p \<noteq> d \<longrightarrow> 0 \<le> sex p \<and> sex p < int (length buf)"
  shows "\<exists>buf' mn' mx'. query_loop d pos itr (Some buf, mn, mx) = Inr (Some buf', mn', mx') \<and>
           length buf' = length buf \<and>
           (\<forall>s. 0 \<le> s \<and> s < int (length buf) \<longrightarrow>
              buf' ! nat s =
                (case filter (\<lambda>p. sex p = s \<and> ploidy p \<noteq> d) (map snd itr) of
                   [] \<Rightarrow> buf ! nat s
                 | ps \<Rightarrow> ploidy (last ps)))"
  using assms
proof (induction itr arbitrary: buf mn mx)
  case Nil
  show ?case by (simp add: query_loop_Nil)
next
  case (Cons e itr)
  obtain r p where e: "e = (r, p)" by (cases e)
  have ov: "reg_start r \<le> pos \<and> pos \<le> reg_end r" using Cons.prems(1) by (simp add: e)
  have rest1: "\<forall>(r, p) \<in> set itr. reg_start r \<le> pos \<and> pos \<le> reg_end r"
    using Cons.prems(1) by simp
  show ?case
  proof (cases "ploidy p = d")
    case True
    have rest2: "\<forall>(r, p) \<in> set itr. ploidy p \<noteq> d \<longrightarrow> 0 \<le> sex p \<and> sex p < int (length buf)"
      using Cons.prems(2) by simp
    from Cons.IH [OF rest1 rest2, of mn mx] True ov show ?thesis
      by (simp add: e query_loop_Cons)
  next
    case False
    let ?buf1 = "buf[nat (sex p) := ploidy p]"
    let ?mn1 = "if ploidy p <s mn then ploidy p else mn"
    let ?mx1 = "if mx <s ploidy p then ploidy p else mx"
    have rng: "0 \<le> sex p \<and> sex p < int (length buf)" using Cons.prems(2) False by (simp add: e)
    then have st: "store buf (sex p) (ploidy p) = Inr ?buf1" by (simp add: store_def)
    have rest2: "\<forall>(r, p) \<in> set itr. ploidy p \<noteq> d \<longrightarrow> 0 \<le> sex p \<and> sex p < int (length ?buf1)"
      using Cons.prems(2) by simp
    from Cons.IH [OF rest1 rest2, of ?mn1 ?mx1] obtain buf' mn' mx' where
      run: "query_loop d pos itr (Some ?buf1, ?mn1, ?mx1) = Inr (Some buf', mn', mx')"
      and len: "length buf' = length ?buf1"
      and slots: "\<forall>s. 0 \<le> s \<and> s < int (length ?buf1) \<longrightarrow>
              buf' ! nat s =
                (case filter (\<lambda>p. sex p = s \<and> ploidy p \<noteq> d) (map snd itr) of
                   [] \<Rightarrow> ?buf1 ! nat s
                 | ps \<Rightarrow> ploidy (last ps))"
      by blast
    have step: "query_loop d pos (e # itr) (Some buf, mn, mx) = Inr (Some buf', mn', mx')"
      using run False ov st by (simp add: e query_loop_Cons)
    have "buf' ! nat s =
            (case filter (\<lambda>p. sex p = s \<and> ploidy p \<noteq> d) (map snd (e # itr)) of
               [] \<Rightarrow> buf ! nat s
             | ps \<Rightarrow> ploidy (last ps))"
      if s: "0 \<le> s \<and> s < int (length buf)" for s
    proof (cases "sex p = s")
      case True
      have "nat (sex p) < length buf" using rng by linarith
      then have "?buf1 ! nat s = ploidy p" using True by (simp only: nth_list_update_eq)
      with slots s True False show ?thesis
        by (simp add: e split: list.splits)
    next
      case neq: False
      then have "nat (sex p) \<noteq> nat s" using rng s by linarith
      then have "?buf1 ! nat s = buf ! nat s" by simp
      with slots s neq show ?thesis by (simp add: e split: list.splits)
    qed
    with step len show ?thesis by simp
  qed
qed

lemma fill_dflt_fits:
  "n \<le> int (length buf) \<Longrightarrow> fill_dflt 0 n d buf = Inr (replicate (nat n) d @ drop (nat n) buf)"
proof (cases "0 \<le> n")
  case True
  assume "n \<le> int (length buf)"
  from fill_dflt_take [OF _ True this, of d] show ?thesis by simp
next
  case False
  then show ?thesis by (simp add: fill_dflt_neg)
qed

lemma fill_opt_fits:
  "fits pl seq pos sex2ploidy \<Longrightarrow>
   fill_opt (nsex pl) (dflt pl) sex2ploidy = Inr (map_option (filled pl) sex2ploidy)"
  by (cases sex2ploidy) (simp_all add: fits_def fill_opt_def filled_def fill_dflt_fits)

lemma query_no_overlap_aux:
  assumes "overlapping (idx pl) seq pos = []" and "fits pl seq pos sex2ploidy"
  shows "ploidy_query pl seq pos sex2ploidy mn mx =
           Inr \<lparr>q_ret = 0, q_sex2ploidy = map_option (filled pl) sex2ploidy,
                q_min = map_option (\<lambda>_. dflt pl) mn, q_max = map_option (\<lambda>_. dflt pl) mx\<rparr>"
proof -
  have r: "regidx_overlap (idx pl) seq pos pos = (0, snd (regidx_overlap (idx pl) seq pos pos))"
    using regidx_overlap_ret [of "idx pl" seq pos] assms(1)
    by (cases "regidx_overlap (idx pl) seq pos pos") simp
  show ?thesis
    unfolding ploidy_query_def
    by (subst r) (simp add: fill_opt_fits [OF assms(2)])
qed

lemma loop_slots:
  assumes "fits pl seq pos (Some buf)"
  shows "\<exists>w mn' mx'. query_loop (dflt pl) pos (snd (regidx_overlap (idx pl) seq pos pos))
            (Some (filled pl buf), mn, mx) = Inr (Some w, mn', mx') \<and>
            length w = length buf \<and>
            (\<forall>s. 0 \<le> s \<and> s < int (length buf) \<longrightarrow>
               w ! nat s =
                 (case filter (\<lambda>p. sex p = s \<and> ploidy p \<noteq> dflt pl) (overlapping (idx pl) seq pos) of
                    [] \<Rightarrow> filled pl buf ! nat s
                  | ps \<Rightarrow> ploidy (last ps)))"
proof -
  let ?itr = "snd (regidx_overlap (idx pl) seq pos pos)"
  have len: "length (filled pl buf) = length buf"
    using assms by (auto simp: fits_def filled_def)
  have a: "\<forall>(r, p) \<in> set ?itr. reg_start r \<le> pos \<and> pos \<le> reg_end r"
    using regidx_overlap_hits by blast
  have "\<forall>p \<in> set (map snd ?itr). ploidy p \<noteq> dflt pl \<longrightarrow> 0 \<le> sex p \<and> sex p < int (length buf)"
    using assms unfolding regidx_overlap_payloads by (simp add: fits_def list_all_iff)
  then have b: "\<forall>(r, p) \<in> set ?itr. ploidy p \<noteq> dflt pl \<longrightarrow> 0 \<le> sex p \<and> sex p < int (length (filled pl buf))"
    unfolding len by force
  from query_loop_vector [OF a b, of mn mx] show ?thesis
    unfolding regidx_overlap_payloads len .
qed

lemma loop_returns:
  assumes "fits pl seq pos sex2ploidy"
  shows "\<exists>st. query_loop (dflt pl) pos (snd (regidx_overlap (idx pl) seq pos pos))
            (map_option (filled pl) sex2ploidy, mn, mx) = Inr st"
proof (cases sex2ploidy)
  case None
  from query_loop_None [of "dflt pl" pos "snd (regidx_overlap (idx pl) seq pos pos)" mn mx]
  obtain mn' mx' where "query_loop (dflt pl) pos (snd (regidx_overlap (idx pl) seq pos pos))
      (None, mn, mx) = Inr (None, mn', mx')" by blast
  then show ?thesis using None by simp
next
  case (Some buf)
  from loop_slots [OF assms [unfolded Some], of mn mx] obtain w mn' mx' where
    "query_loop (dflt pl) pos (snd (regidx_overlap (idx pl) seq pos pos))
            (Some (filled pl buf), mn, mx) = Inr (Some w, mn', mx')" by blast
  then show ?thesis using Some by simp
qed

lemma query_overlap_unfold:
  assumes ov: "overlapping (idx pl) seq pos \<noteq> []"
    and fit: "fits pl seq pos sex2ploidy"
    and run: "query_loop (dflt pl) pos (snd (regidx_overlap (idx pl) seq pos pos))
                (map_option (filled pl) sex2ploidy, INT_MAX, -1) = Inr (v, mn1, mx1)"
    and req: "\<not> (sex2ploidy = None \<and> mn = None \<and> mx = None)"
  shows "ploidy_query pl seq pos sex2ploidy mn mx =
           Inr \<lparr>q_ret = 1, q_sex2ploidy = v,
                q_min = map_option (\<lambda>_. if mx1 = -1 then dflt pl else mn1) mn,
                q_max = map_option (\<lambda>_. if mx1 = -1 then dflt pl else mx1) mx\<rparr>"
proof -
  have r: "regidx_overlap (idx pl) seq pos pos = (1, snd (regidx_overlap (idx pl) seq pos pos))"
    using regidx_overlap_ret [of "idx pl" seq pos] ov
    by (cases "regidx_overlap (idx pl) seq pos pos") simp
  show ?thesis
    unfolding ploidy_query_def
    by (subst r) (use req in \<open>auto simp: fill_opt_fits [OF fit] run\<close>)
qed

lemma query_unrequested:
  "ploidy_query pl seq pos None None None =
     Inr \<lparr>q_ret = (if overlapping (idx pl) seq pos = [] then 0 else 1),
          q_sex2ploidy = None, q_min = None, q_max = None\<rparr>"
proof -
  have r: "regidx_overlap (idx pl) seq pos pos =
      ((if overlapping (idx pl) seq pos = [] then 0 else 1), snd (regidx_overlap (idx pl) seq pos pos))"
    using regidx_overlap_ret [of "idx pl" seq pos]
    by (cases "regidx_overlap (idx pl) seq pos pos") simp
  show ?thesis
    unfolding ploidy_query_def by (subst r) simp
qed


section \<open>Example tables\<close>

text \<open>
  Modelled from the spec: a coordinate parser for the examples, standing for
  \<^verbatim>\<open>regidx_parse_tab\<close> of the interval index. The first three fields of the line are the
  chromosome name, the start and the end, kept as they are written; a line without them
  is rejected with -2. The numeric convention of the real parser is that of the external
  component; the theorems below that are not about an example hold for every parser.
\<close>

definition regidx_parse_tab :: parse_tab where
  "regidx_parse_tab line =
     (let ss = skip_space line;
          se = skip_field ss;
          chr = take (length ss - length se) ss;
          (beg, se1) = strtol se;
          (en, se2) = strtol se1
      in if ss = [] \<or> se = [] \<or> se1 = se \<or> se2 = se1
         then (- 2, chr, \<lparr>reg_start = 0, reg_end = 0\<rparr>)
         else (0, chr, \<lparr>reg_start = beg, reg_end = en\<rparr>))"

text \<open>Scenario A of the spec: default 2 and the record \<^verbatim>\<open>chr1 100 200 M 1\<close>.\<close>

definition scenario_A :: string where
  "scenario_A = ''chr1 100 200 M 1''"

definition table_A :: ploidy_t where
  "table_A =
     \<lparr>nsex = 1, dflt = 2, min_pld = 1, max_pld = 2,
      idx = [(''chr1'', \<lparr>reg_start = 100, reg_end = 200\<rparr>, \<lparr>sex = 0, ploidy = 1\<rparr>)],
      sex2id = [(''M'', 0)], id2sex = [''M'']\<rparr>"

text \<open>Scenario B of the spec: default 2 and two records on the same region of chrX.\<close>

definition scenario_B :: string where
  "scenario_B = ''chrX 0 155270560 M 1'' @ [CHR 0x0A] @ ''chrX 0 155270560 F 2''"

definition table_B :: ploidy_t where
  "table_B =
     \<lparr>nsex = 2, dflt = 2, min_pld = 1, max_pld = 2,
      idx = [(''chrX'', \<lparr>reg_start = 0, reg_end = 155270560\<rparr>, \<lparr>sex = 0, ploidy = 1\<rparr>),
             (''chrX'', \<lparr>reg_start = 0, reg_end = 155270560\<rparr>, \<lparr>sex = 1, ploidy = 2\<rparr>)],
      sex2id = [(''M'', 0), (''F'', 1)], id2sex = [''M'', ''F'']\<rparr>"

text \<open>
  Two overlapping regions for the same sex category, the first with ploidy 1 and the
  second, which starts later, with the default ploidy 2.
\<close>

definition scenario_C :: string where
  "scenario_C = ''chr1 100 200 M 1'' @ [CHR 0x0A] @ ''chr1 120 300 M 2''"

definition table_C :: ploidy_t where
  "table_C =
     \<lparr>nsex = 1, dflt = 2, min_pld = 1, max_pld = 2,
      idx = [(''chr1'', \<lparr>reg_start = 100, reg_end = 200\<rparr>, \<lparr>sex = 0, ploidy = 1\<rparr>),
             (''chr1'', \<lparr>reg_start = 120, reg_end = 300\<rparr>, \<lparr>sex = 0, ploidy = 2\<rparr>)],
      sex2id = [(''M'', 0)], id2sex = [''M'']\<rparr>"


lemma table_A_built: "ploidy_init_string regidx_parse_tab scenario_A 2 = Return (Some table_A)"
  by code_simp

lemma table_B_built: "ploidy_init_string regidx_parse_tab scenario_B 2 = Return (Some table_B)"
  by code_simp

lemma table_C_built: "ploidy_init_string regidx_parse_tab scenario_C 2 = Return (Some table_C)"
  by code_simp

section \<open>Claims about the point query\<close>

text \<open>
  Claim C3. For every table and every chromosome and position with no overlapping stored
  interval, the query returns 0 (not found), writes the default ploidy to the min and to
  the max output when they are requested, and sets all \<^verbatim>\<open>nsex\<close> slots of the per-sex vector
  to the default ploidy when a vector that holds them is passed. Outputs that are not
  requested stay \<open>None\<close>.
\<close>

theorem query_no_overlap:
  assumes "overlapping (idx pl) seq pos = []" and "fits pl seq pos sex2ploidy"
  shows "ploidy_query pl seq pos sex2ploidy mn mx =
           Inr \<lparr>q_ret = 0, q_sex2ploidy = map_option (filled pl) sex2ploidy,
                q_min = map_option (\<lambda>_. dflt pl) mn, q_max = map_option (\<lambda>_. dflt pl) mx\<rparr>"
proof -
  from assms(1) have "fst (regidx_overlap (idx pl) seq pos pos) = 0"
    by (simp add: regidx_overlap_ret)
  then have r: "regidx_overlap (idx pl) seq pos pos = (0, snd (regidx_overlap (idx pl) seq pos pos))"
    by (cases "regidx_overlap (idx pl) seq pos pos") simp
  have "fill_opt (nsex pl) (dflt pl) sex2ploidy = Inr (map_option (filled pl) sex2ploidy)"
    using assms(2) by (rule fill_opt_fits)
  then show ?thesis
    unfolding ploidy_query_def by (subst r) simp
qed

theorem query_no_overlap_witness:
  "overlapping (idx table_A) ''chr1'' 300 = [] \<and> fits table_A ''chr1'' 300 (Some [7]) \<and>
   ploidy_query table_A ''chr1'' 300 (Some [7]) (Some 0) (Some 0) =
     Inr \<lparr>q_ret = 0, q_sex2ploidy = Some [2], q_min = Some 2, q_max = Some 2\<rparr>"
proof -
  have h1: "overlapping (idx table_A) ''chr1'' 300 = []" by code_simp
  have h2: "fits table_A ''chr1'' 300 (Some [7])" by code_simp
  have f: "filled table_A [7] = [2]" by code_simp
  show ?thesis
    using h1 h2 query_no_overlap [OF h1 h2, of "Some 0" "Some 0"]
    by (simp add: f) (simp add: table_A_def)
qed

text \<open>
  Claim C4. For every point query where at least one stored interval overlaps and the
  ploidy of every overlapping record equals the default ploidy, the query returns 1
  (found) and both the min and the max output are the default ploidy. The theorem needs
  no bound on the ploidy values; the vector, when one is passed, is all default.
\<close>

theorem query_all_default:
  assumes ov: "overlapping (idx pl) seq pos \<noteq> []"
    and dfl: "\<forall>p \<in> set (overlapping (idx pl) seq pos). ploidy p = dflt pl"
    and fit: "fits pl seq pos sex2ploidy"
  shows "ploidy_query pl seq pos sex2ploidy (Some a) (Some b) =
           Inr \<lparr>q_ret = 1, q_sex2ploidy = map_option (filled pl) sex2ploidy,
                q_min = Some (dflt pl), q_max = Some (dflt pl)\<rparr>"
proof -
  let ?itr = "snd (regidx_overlap (idx pl) seq pos pos)"
  have "\<forall>p \<in> set (map snd ?itr). ploidy p = dflt pl"
    using dfl unfolding regidx_overlap_payloads .
  then have "\<forall>(r, p) \<in> set ?itr. ploidy p = dflt pl" by force
  then have run: "query_loop (dflt pl) pos ?itr (map_option (filled pl) sex2ploidy, INT_MAX, -1) =
      Inr (map_option (filled pl) sex2ploidy, INT_MAX, -1)"
    by (rule query_loop_all_default)
  from query_overlap_unfold [OF ov fit run, of "Some a" "Some b"] show ?thesis by simp
qed

theorem query_all_default_witness:
  "overlapping (idx table_C) ''chr1'' 250 \<noteq> [] \<and>
   list_all (\<lambda>p. ploidy p = dflt table_C) (overlapping (idx table_C) ''chr1'' 250) \<and>
   fits table_C ''chr1'' 250 (Some [7]) \<and>
   ploidy_query table_C ''chr1'' 250 (Some [7]) (Some 0) (Some 0) =
     Inr \<lparr>q_ret = 1, q_sex2ploidy = Some [2], q_min = Some 2, q_max = Some 2\<rparr>"
proof -
  have h1: "overlapping (idx table_C) ''chr1'' 250 \<noteq> []" by code_simp
  have h2: "list_all (\<lambda>p. ploidy p = dflt table_C) (overlapping (idx table_C) ''chr1'' 250)"
    by code_simp
  then have h2': "\<forall>p \<in> set (overlapping (idx table_C) ''chr1'' 250). ploidy p = dflt table_C"
    by (simp add: list_all_iff)
  have h3: "fits table_C ''chr1'' 250 (Some [7])" by code_simp
  have f: "filled table_C [7] = [2]" by code_simp
  show ?thesis
    using h1 h2 h3 query_all_default [OF h1 h2' h3, of 0 0]
    by (simp add: f) (simp add: table_C_def)
qed

text \<open>
  Claim C10. For every query in which both the min and the max output are requested,
  whether or not an interval overlaps and whatever the ploidy values of the records are,
  the query returns and the value written to min is at most the value written to max
  (as signed integers). The vector, when one is passed, holds the slots that are written.
\<close>

theorem query_min_le_max:
  assumes fit: "fits pl seq pos sex2ploidy"
  shows "\<exists>out m M. ploidy_query pl seq pos sex2ploidy (Some a) (Some b) = Inr out \<and>
           q_min out = Some m \<and> q_max out = Some M \<and> m \<le>s M"
proof (cases "overlapping (idx pl) seq pos = []")
  case True
  let ?out = "\<lparr>q_ret = 0, q_sex2ploidy = map_option (filled pl) sex2ploidy,
                q_min = Some (dflt pl), q_max = Some (dflt pl)\<rparr>"
  have "ploidy_query pl seq pos sex2ploidy (Some a) (Some b) = Inr ?out"
    using query_no_overlap_aux [OF True fit, of "Some a" "Some b"] by simp
  moreover have "q_min ?out = Some (dflt pl)" "q_max ?out = Some (dflt pl)" by simp_all
  moreover have "dflt pl \<le>s dflt pl" by (simp add: word_sle_eq)
  ultimately show ?thesis by blast
next
  case False
  from loop_returns [OF fit, of INT_MAX "-1"] obtain st where
    st: "query_loop (dflt pl) pos (snd (regidx_overlap (idx pl) seq pos pos))
            (map_option (filled pl) sex2ploidy, INT_MAX, -1) = Inr st"
    by blast
  obtain v mn1 mx1 where "st = (v, mn1, mx1)" by (cases st)
  with st have run: "query_loop (dflt pl) pos (snd (regidx_overlap (idx pl) seq pos pos))
            (map_option (filled pl) sex2ploidy, INT_MAX, -1) = Inr (v, mn1, mx1)"
    by simp
  let ?m = "if mx1 = -1 then dflt pl else mn1"
  let ?M = "if mx1 = -1 then dflt pl else mx1"
  let ?out = "\<lparr>q_ret = 1, q_sex2ploidy = v, q_min = Some ?m, q_max = Some ?M\<rparr>"
  have inv: "mx1 = -1 \<or> mn1 \<le>s mx1"
    by (rule query_loop_bounds [OF run]) simp
  have le: "?m \<le>s ?M"
  proof (cases "mx1 = -1")
    case True
    then show ?thesis by (simp add: word_sle_eq)
  next
    case False
    with inv show ?thesis by simp
  qed
  have "ploidy_query pl seq pos sex2ploidy (Some a) (Some b) = Inr ?out"
    using query_overlap_unfold [OF False fit run, of "Some a" "Some b"] by simp
  moreover have "q_min ?out = Some ?m" "q_max ?out = Some ?M" by simp_all
  ultimately show ?thesis using le by blast
qed

theorem query_min_le_max_witness:
  "fits table_B ''chrX'' 5000 (Some [0, 0]) \<and>
   (\<exists>out m M. ploidy_query table_B ''chrX'' 5000 (Some [0, 0]) (Some 0) (Some 0) = Inr out \<and>
      q_min out = Some m \<and> q_max out = Some M \<and> m \<le>s M)"
proof -
  have h: "fits table_B ''chrX'' 5000 (Some [0, 0])" by code_simp
  show ?thesis using h query_min_le_max [OF h, of 0 0] by simp
qed

text \<open>
  Claim C1, as the code has it. During a point query with at least one overlapping
  record, a record whose ploidy equals the default ploidy leaves the per-sex vector as it
  is: after the reduction the slot of a sex category holds the ploidy of the last
  overlapping record of that category whose ploidy differs from the default, and the
  default ploidy when there is no such record.
\<close>

theorem query_vector_slots:
  assumes ov: "overlapping (idx pl) seq pos \<noteq> []"
    and fit: "fits pl seq pos (Some buf)"
    and s: "0 \<le> s" "s < nsex pl"
  shows "\<exists>out v. ploidy_query pl seq pos (Some buf) mn mx = Inr out \<and>
           q_sex2ploidy out = Some v \<and>
           v ! nat s = slot_value (dflt pl) (overlapping (idx pl) seq pos) s"
proof -
  from loop_slots [OF fit, of INT_MAX "-1"] obtain w mn1 mx1 where
    run: "query_loop (dflt pl) pos (snd (regidx_overlap (idx pl) seq pos pos))
            (Some (filled pl buf), INT_MAX, -1) = Inr (Some w, mn1, mx1)"
    and slots: "\<forall>s. 0 \<le> s \<and> s < int (length buf) \<longrightarrow>
        w ! nat s =
          (case filter (\<lambda>p. sex p = s \<and> ploidy p \<noteq> dflt pl) (overlapping (idx pl) seq pos) of
             [] \<Rightarrow> filled pl buf ! nat s
           | ps \<Rightarrow> ploidy (last ps))"
    by blast
  have n: "nsex pl \<le> int (length buf)" using fit by (simp add: fits_def)
  have d: "filled pl buf ! nat s = dflt pl"
    using s by (simp add: filled_def nth_append)
  have "s < int (length buf)" using s n by simp
  with slots s(1) have slot: "w ! nat s = slot_value (dflt pl) (overlapping (idx pl) seq pos) s"
    by (simp add: slot_value_def d split: list.splits)
  let ?out = "\<lparr>q_ret = 1, q_sex2ploidy = Some w,
                q_min = map_option (\<lambda>_. if mx1 = -1 then dflt pl else mn1) mn,
                q_max = map_option (\<lambda>_. if mx1 = -1 then dflt pl else mx1) mx\<rparr>"
  have "ploidy_query pl seq pos (Some buf) mn mx = Inr ?out"
    using query_overlap_unfold [OF ov fit, of "Some w" mn1 mx1 mn mx] run by simp
  moreover have "q_sex2ploidy ?out = Some w" by simp
  ultimately show ?thesis using slot by blast
qed

theorem query_vector_slots_witness:
  "overlapping (idx table_C) ''chr1'' 150 \<noteq> [] \<and> fits table_C ''chr1'' 150 (Some [7]) \<and>
   (0::int) \<le> 0 \<and> 0 < nsex table_C \<and>
   slot_value (dflt table_C) (overlapping (idx table_C) ''chr1'' 150) 0 = 1 \<and>
   (\<exists>out v. ploidy_query table_C ''chr1'' 150 (Some [7]) None None = Inr out \<and>
      q_sex2ploidy out = Some v \<and>
      v ! nat 0 = slot_value (dflt table_C) (overlapping (idx table_C) ''chr1'' 150) 0)"
proof -
  have h1: "overlapping (idx table_C) ''chr1'' 150 \<noteq> []" by code_simp
  have h2: "fits table_C ''chr1'' 150 (Some [7])" by code_simp
  have h3: "(0::int) \<le> 0" by simp
  have h4: "0 < nsex table_C" by (simp add: table_C_def)
  have v: "slot_value (dflt table_C) (overlapping (idx table_C) ''chr1'' 150) 0 = 1" by code_simp
  show ?thesis
    using h1 h2 h4 v query_vector_slots [OF h1 h2 h3 h4, of None None] by simp
qed

text \<open>
  Claim C1 as it is stated fails. In the table built from \<open>scenario_C\<close> the two records
  overlap position 150, both belong to sex category 0, and the record considered last has
  the default ploidy 2; the slot of the category holds 1 after the query, not the default.
\<close>

theorem query_default_record_counterexample:
  "ploidy_init_string regidx_parse_tab scenario_C 2 = Return (Some table_C) \<and>
   overlapping (idx table_C) ''chr1'' 150 = [\<lparr>sex = 0, ploidy = 1\<rparr>, \<lparr>sex = 0, ploidy = 2\<rparr>] \<and>
   ploidy (last (overlapping (idx table_C) ''chr1'' 150)) = dflt table_C \<and>
   ploidy_query table_C ''chr1'' 150 (Some [7]) None None =
     Inr \<lparr>q_ret = 1, q_sex2ploidy = Some [1], q_min = None, q_max = None\<rparr> \<and>
   [1] ! 0 \<noteq> dflt table_C"
  by code_simp

section \<open>The accessors\<close>

text \<open>
  Claim C5. \<^verbatim>\<open>ploidy_min\<close> returns the smaller of the default ploidy and the observed
  minimum and \<^verbatim>\<open>ploidy_max\<close> the larger of the default ploidy and the observed maximum, in
  every state of the table; so \<^verbatim>\<open>ploidy_min\<close> is at most \<^verbatim>\<open>ploidy_max\<close> always. Both return
  the default ploidy in the table as it is constructed, before any record is parsed, and
  in the tables that the two constructors return for an empty input.
\<close>

theorem min_max_accessors:
  "sint (ploidy_min pl) = min (sint (dflt pl)) (sint (min_pld pl)) \<and>
   sint (ploidy_max pl) = max (sint (dflt pl)) (sint (max_pld pl)) \<and>
   ploidy_min pl \<le>s ploidy_max pl \<and>
   ploidy_min (ploidy_new d) = d \<and> ploidy_max (ploidy_new d) = d \<and>
   ploidy_init_string tab [] d = Return (Some (ploidy_new d)) \<and>
   ploidy_init tab (File []) d = Return (Some (ploidy_new d))"
proof -
  have a: "sint (ploidy_min pl) = min (sint (dflt pl)) (sint (min_pld pl))"
    by (simp add: ploidy_min_def word_sless_alt min_def)
  have b: "sint (ploidy_max pl) = max (sint (dflt pl)) (sint (max_pld pl))"
    by (simp add: ploidy_max_def word_sless_alt max_def)
  have c: "ploidy_min pl \<le>s ploidy_max pl"
    unfolding word_sle_eq a b by simp
  have d: "ploidy_min (ploidy_new d) = d" "ploidy_max (ploidy_new d) = d"
    by (simp_all add: ploidy_min_def ploidy_max_def ploidy_new_def)
  have e: "ploidy_init_string tab [] d = Return (Some (ploidy_new d))"
    by (simp add: ploidy_init_string_def regidx_init_def regidx_insert_def
        init_string_loop.simps [of tab "[]"] ploidy_new_def)
  have f: "ploidy_init tab (File []) d = Return (Some (ploidy_new d))"
    by (simp add: ploidy_init_def regidx_init_def regidx_insert_def ploidy_new_def)
  from a b c d e f show ?thesis by simp
qed

section \<open>The registry of sex categories\<close>

lemma add_sex_again:
  "ploidy_add_sex pl name = (i, pl') \<Longrightarrow> ploidy_add_sex pl' name = (i, pl')"
  by (auto simp: ploidy_add_sex_def khash_str2int_get_def khash_str2int_inc_def Let_def
      split: option.splits)

lemma registered_key:
  "registry_ok pl \<Longrightarrow> khash_str2int_get (sex2id pl) name = Some i \<Longrightarrow> name \<in> set (id2sex pl)"
proof -
  assume ok: "registry_ok pl" and "khash_str2int_get (sex2id pl) name = Some i"
  then have "(name, i) \<in> set (sex2id pl)"
    by (simp add: khash_str2int_get_def map_of_SomeD)
  then have "name \<in> set (map fst (sex2id pl))" by force
  with ok show ?thesis by (simp add: registry_ok_def)
qed

lemma unregistered_key:
  "registry_ok pl \<Longrightarrow> name \<notin> set (id2sex pl) \<Longrightarrow> khash_str2int_get (sex2id pl) name = None"
  using registered_key by (cases "khash_str2int_get (sex2id pl) name") auto

lemma add_sex_registry:
  assumes ok: "registry_ok pl" and a: "ploidy_add_sex pl name = (i, pl')"
  shows "registry_ok pl' \<and> set (id2sex pl') = insert name (set (id2sex pl))"
proof (cases "khash_str2int_get (sex2id pl) name")
  case None
  then have "map_of (sex2id pl) name = None" by (simp add: khash_str2int_get_def)
  with a None ok show ?thesis
    by (auto simp: registry_ok_def ploidy_add_sex_def khash_str2int_inc_def Let_def)
next
  case (Some j)
  with a have "pl' = pl" by (simp add: ploidy_add_sex_def)
  with ok registered_key [OF ok Some] show ?thesis by auto
qed

lemma parse_sex_registry:
  assumes ok: "registry_ok pl" and a: "parse_sex tmp sp pl = (sp', pl')"
  shows "registry_ok pl' \<and> set (id2sex pl') = insert tmp (set (id2sex pl))"
proof (cases "khash_str2int_get (sex2id pl) tmp")
  case None
  then have "map_of (sex2id pl) tmp = None" by (simp add: khash_str2int_get_def)
  with a None ok show ?thesis
    by (auto simp: registry_ok_def parse_sex_def khash_str2int_inc_def Let_def)
next
  case (Some j)
  with a have "pl' = pl" by (simp add: parse_sex_def)
  with ok registered_key [OF ok Some] show ?thesis by auto
qed

lemma registry_new: "registry_ok (ploidy_new d)"
  by (simp add: registry_ok_def ploidy_new_def khash_str2int_init_def)


section \<open>Properties of the record parser\<close>

lemma update_bounds_min:
  "sint (min_pld (update_bounds p pl)) = min (sint (min_pld pl)) (sint p)"
  by (auto simp: update_bounds_def Let_def word_sless_alt)

lemma update_bounds_max:
  "sint (max_pld (update_bounds p pl)) = max (sint (max_pld pl)) (sint p)"
  by (auto simp: update_bounds_def Let_def word_sless_alt)

lemma update_bounds_other:
  "dflt (update_bounds p pl) = dflt pl" "nsex (update_bounds p pl) = nsex pl"
  "sex2id (update_bounds p pl) = sex2id pl" "id2sex (update_bounds p pl) = id2sex pl"
  "idx (update_bounds p pl) = idx pl"
  by (auto simp: update_bounds_def Let_def)

lemma parse_sex_bounds:
  "parse_sex tmp sp pl = (sp', pl') \<Longrightarrow>
     min_pld pl' = min_pld pl \<and> max_pld pl' = max_pld pl \<and> dflt pl' = dflt pl \<and> idx pl' = idx pl"
  by (auto simp: parse_sex_def Let_def khash_str2int_inc_def split: option.splits)

lemma ploidy_parse_success:
  assumes "ploidy_parse tab line payload pl = Return (0, chr, reg, sp, pl')"
  shows "\<exists>tmp sp0 pl1. parse_sex tmp payload pl = (sp0, pl1) \<and>
           pl' = update_bounds (ploidy sp) pl1 \<and> sex sp = sex sp0"
  using assms
  by (auto simp: ploidy_parse_def Let_def split: prod.splits option.splits if_splits) blast

lemma ploidy_parse_cases:
  assumes "ploidy_parse tab line payload pl = Return (r, chr, reg, sp, pl')"
  shows "(r \<noteq> 0 \<and> pl' = pl \<and> sp = payload) \<or>
         (r = 0 \<and> (\<exists>tmp sp0 pl1. parse_sex tmp payload pl = (sp0, pl1) \<and>
            pl' = update_bounds (ploidy sp) pl1 \<and> sex sp = sex sp0))"
  using assms
  by (auto simp: ploidy_parse_def Let_def split: prod.splits option.splits if_splits) blast

lemma ploidy_parse_abort:
  "ploidy_parse tab line payload pl = Abort m \<Longrightarrow> m = could_not_parse line"
  by (auto simp: ploidy_parse_def Let_def split: prod.splits option.splits if_splits)

lemma registry_update_bounds: "registry_ok (update_bounds p pl) = registry_ok pl"
  by (simp add: registry_ok_def update_bounds_other)

lemma ploidy_parse_registry:
  assumes "registry_ok pl" and "ploidy_parse tab line payload pl = Return (r, chr, reg, sp, pl')"
  shows "registry_ok pl'"
  using ploidy_parse_cases [OF assms(2)] assms(1) parse_sex_registry
  by (auto simp: registry_update_bounds)


text \<open>
  Claim C6. For every successfully parsed record (return value 0) with ploidy value p,
  the observed minimum of the table becomes the smaller of its old value and p and the
  observed maximum the larger of its old value and p, whatever p is, the default ploidy
  included; the default ploidy is not changed.
\<close>

theorem parse_updates_bounds:
  assumes "ploidy_parse tab line payload pl = Return (0, chr, reg, sp, pl')"
  shows "sint (min_pld pl') = min (sint (min_pld pl)) (sint (ploidy sp)) \<and>
         sint (max_pld pl') = max (sint (max_pld pl)) (sint (ploidy sp)) \<and>
         dflt pl' = dflt pl"
proof -
  from ploidy_parse_success [OF assms] obtain tmp sp0 pl1 where
    s: "parse_sex tmp payload pl = (sp0, pl1)" and u: "pl' = update_bounds (ploidy sp) pl1"
    by blast
  from parse_sex_bounds [OF s] show ?thesis
    by (simp add: u update_bounds_min update_bounds_max update_bounds_other)
qed

theorem parse_updates_bounds_witness:
  "ploidy_parse regidx_parse_tab ''chr1 100 200 M 1'' \<lparr>sex = 0, ploidy = 0\<rparr> (ploidy_new 2) =
     Return (0, ''chr1'', \<lparr>reg_start = 100, reg_end = 200\<rparr>, \<lparr>sex = 0, ploidy = 1\<rparr>,
       table_A\<lparr>idx := []\<rparr>) \<and>
   sint (min_pld (table_A\<lparr>idx := []\<rparr>)) = min (sint (min_pld (ploidy_new 2))) (sint (1 :: cint)) \<and>
   sint (max_pld (table_A\<lparr>idx := []\<rparr>)) = max (sint (max_pld (ploidy_new 2))) (sint (1 :: cint)) \<and>
   min_pld (table_A\<lparr>idx := []\<rparr>) = 1 \<and> max_pld (table_A\<lparr>idx := []\<rparr>) = 2"
proof -
  have h: "ploidy_parse regidx_parse_tab ''chr1 100 200 M 1'' \<lparr>sex = 0, ploidy = 0\<rparr> (ploidy_new 2) =
     Return (0, ''chr1'', \<lparr>reg_start = 100, reg_end = 200\<rparr>, \<lparr>sex = 0, ploidy = 1\<rparr>,
       table_A\<lparr>idx := []\<rparr>)"
    by code_simp
  show ?thesis
    using h parse_updates_bounds [OF h] by (simp add: table_A_def)
qed

text \<open>The scan over the first three fields counts tokens.\<close>

lemma count_tokens_skip_space: "count_tokens False (skip_space s) = count_tokens False s"
  by (induction s) (simp_all add: skip_space_def)

lemma count_tokens_inside: "count_tokens True s = count_tokens False (skip_field s)"
  by (induction s) (simp_all add: skip_field_def)

lemma skip_space_head: "skip_space s = c # cs \<Longrightarrow> \<not> isspace c"
  unfolding skip_space_def by (metis hd_dropWhile list.sel(1) list.distinct(1))

lemma count_tokens_field:
  assumes "skip_field (skip_space s) \<noteq> []"
  shows "count_tokens False s = Suc (count_tokens False (skip_field (skip_space s)))"
proof (cases "skip_space s")
  case Nil
  with assms show ?thesis by (simp add: skip_field_def)
next
  case (Cons c cs)
  then have "\<not> isspace c" by (rule skip_space_head)
  then have "count_tokens False (c # cs) = Suc (count_tokens False (skip_field (c # cs)))"
    by (simp add: count_tokens_inside) (simp add: skip_field_def)
  then show ?thesis using count_tokens_skip_space [of s] Cons by simp
qed

lemma skip_fields_tokens:
  "skip_fields k (skip_space s) = Some ss \<Longrightarrow> ss \<noteq> [] \<Longrightarrow> k < count_tokens False s"
proof (induction k arbitrary: s)
  case 0
  then obtain c cs where sc: "skip_space s = c # cs" by (cases "skip_space s") auto
  then have "\<not> isspace c" by (rule skip_space_head)
  then have "0 < count_tokens False (c # cs)" by simp
  then show ?case using count_tokens_skip_space [of s] sc by simp
next
  case (Suc k)
  let ?f = "skip_field (skip_space s)"
  from Suc.prems(1) have ne: "?f \<noteq> []" and rest: "skip_fields k (skip_space ?f) = Some ss"
    by (auto simp: Let_def split: if_splits)
  from Suc.IH [OF rest Suc.prems(2)] have "k < count_tokens False ?f" .
  with count_tokens_field [OF ne] show ?case by simp
qed


lemma parse_abort_tokens:
  assumes "ploidy_parse tab line payload pl = Abort m"
  shows "fst (tab line) = 0 \<and> 4 \<le> ntokens line \<and> m = could_not_parse line"
proof -
  obtain ret chr reg where t: "tab line = (ret, chr, reg)" by (cases "tab line")
  from assms t have r: "ret = 0"
    by (auto simp: ploidy_parse_def split: if_splits)
  from assms t r obtain ss where "skip_fields 3 (skip_space line) = Some ss" "ss \<noteq> []"
    by (auto simp: ploidy_parse_def split: option.splits if_splits)
  then have "3 < count_tokens False line" by (rule skip_fields_tokens)
  with t r ploidy_parse_abort [OF assms] show ?thesis by (simp add: ntokens_def)
qed

text \<open>
  Claim C2, as the code has it. For every input line that the coordinate parser accepts
  and that has fewer than 4 non-empty whitespace-delimited tokens (the sex token is
  missing), \<^verbatim>\<open>ploidy_parse\<close> does not abort: it returns -2 ("wrong number of fields") to
  the loader and leaves the payload and the table as they were. The parser aborts only
  on lines with at least 4 tokens (\<open>parse_abort_tokens\<close>).
\<close>

theorem parse_missing_sex:
  assumes "fst (tab line) = 0" and "ntokens line < 4"
  shows "ploidy_parse tab line payload pl =
           Return (- 2, fst (snd (tab line)), snd (snd (tab line)), payload, pl)"
proof -
  obtain chr reg where t: "tab line = (0, chr, reg)"
    using assms(1) by (cases "tab line") auto
  show ?thesis
  proof (cases "skip_fields 3 (skip_space line)")
    case None
    then show ?thesis by (simp add: ploidy_parse_def t)
  next
    case (Some ss)
    have "ss = []"
    proof (rule ccontr)
      assume "ss \<noteq> []"
      from skip_fields_tokens [OF Some this] assms(2) show False by (simp add: ntokens_def)
    qed
    with Some show ?thesis by (simp add: ploidy_parse_def t)
  qed
qed

theorem parse_missing_sex_witness:
  "fst (regidx_parse_tab ''chr1 100 200'') = 0 \<and> ntokens ''chr1 100 200'' < 4 \<and>
   ploidy_parse regidx_parse_tab ''chr1 100 200'' \<lparr>sex = 0, ploidy = 0\<rparr> (ploidy_new 2) =
     Return (- 2, ''chr1'', \<lparr>reg_start = 100, reg_end = 200\<rparr>, \<lparr>sex = 0, ploidy = 0\<rparr>, ploidy_new 2)"
proof -
  have h1: "fst (regidx_parse_tab ''chr1 100 200'') = 0" by code_simp
  have h2: "ntokens ''chr1 100 200'' < 4" by code_simp
  have t: "regidx_parse_tab ''chr1 100 200'' = (0, ''chr1'', \<lparr>reg_start = 100, reg_end = 200\<rparr>)"
    by code_simp
  show ?thesis
    using h1 h2 parse_missing_sex [of regidx_parse_tab "''chr1 100 200''",
        OF h1 h2, of "\<lparr>sex = 0, ploidy = 0\<rparr>" "ploidy_new 2"]
    by (simp add: t)
qed

text \<open>
  Claim C2 as it is stated fails. The line \<^verbatim>\<open>chr1 100 200\<close> has three tokens; the parser
  returns -2 and no message, the file loader gives up with the NULL handle, and the
  loader of preset strings goes on and returns a table.
\<close>

theorem parse_missing_sex_counterexample:
  "fst (regidx_parse_tab ''chr1 100 200'') = 0 \<and> ntokens ''chr1 100 200'' = 3 \<and>
   ploidy_parse regidx_parse_tab ''chr1 100 200'' \<lparr>sex = 0, ploidy = 0\<rparr> (ploidy_new 2) =
     Return (- 2, ''chr1'', \<lparr>reg_start = 100, reg_end = 200\<rparr>, \<lparr>sex = 0, ploidy = 0\<rparr>, ploidy_new 2) \<and>
   ploidy_init regidx_parse_tab (File [''chr1 100 200'']) 2 = Return None \<and>
   ploidy_init_string regidx_parse_tab ''chr1 100 200'' 2 = Return (Some (ploidy_new 2))"
  by code_simp

section \<open>Properties of the constructors\<close>

lemma regidx_insert_registry:
  assumes "registry_ok pl" and "regidx_insert tab index line pl = Return (r, index', pl')"
  shows "registry_ok pl'"
proof (cases line)
  case None
  with assms show ?thesis by (simp add: regidx_insert_def)
next
  case (Some l)
  with assms(2) obtain ret chr reg sp where
    "ploidy_parse tab l \<lparr>sex = 0, ploidy = 0\<rparr> pl = Return (ret, chr, reg, sp, pl')"
    by (auto simp: regidx_insert_def split: outcome.splits if_splits)
  with assms(1) show ?thesis by (rule ploidy_parse_registry)
qed

lemma regidx_insert_abort:
  "regidx_insert tab index line pl = Abort m \<Longrightarrow> \<exists>l. m = could_not_parse l"
  by (auto simp: regidx_insert_def split: option.splits outcome.splits if_splits
      dest: ploidy_parse_abort)

lemma init_string_loop_Nil: "init_string_loop tab [] index pl = Return (index, pl)"
  by (simp add: init_string_loop.simps [of tab "[]"])

lemma init_string_loop_result:
  "(\<exists>index' pl'. init_string_loop tab ss index pl = Return (index', pl') \<and>
      (registry_ok pl \<longrightarrow> registry_ok pl')) \<or>
   (\<exists>l. init_string_loop tab ss index pl = Abort (could_not_parse l))"
proof (induction tab ss index pl rule: init_string_loop.induct)
  case (1 tab ss index pl)
  show ?case
  proof (cases "ss = []")
    case True
    then show ?thesis by (simp add: init_string_loop_Nil)
  next
    case False
    let ?ss1 = "dropWhile isspace ss"
    let ?se = "dropWhile (\<lambda>c. c \<noteq> CHR 0x0D \<and> c \<noteq> CHR 0x0A) ?ss1"
    let ?tmp = "take (length ?ss1 - length ?se) ?ss1"
    show ?thesis
    proof (cases "regidx_insert tab index (Some ?tmp) pl")
      case (Abort m)
      then obtain l where "m = could_not_parse l" using regidx_insert_abort by blast
      with Abort False have "init_string_loop tab ss index pl = Abort (could_not_parse l)"
        by (simp add: init_string_loop.simps [of tab ss] Let_def)
      then show ?thesis by blast
    next
      case (Return res)
      obtain r index' pl' where res: "res = (r, index', pl')" by (cases res)
      have step: "init_string_loop tab ss index pl =
          init_string_loop tab (dropWhile isspace ?se) index' pl'"
        using False Return res by (simp add: init_string_loop.simps [of tab ss] Let_def)
      have ok: "registry_ok pl \<longrightarrow> registry_ok pl'"
        using regidx_insert_registry Return res by blast
      have ins: "regidx_insert tab index (Some ?tmp) pl = Return (r, index', pl')"
        using Return res by simp
      note ih = "1.IH" [OF False refl refl refl ins refl refl]
      show ?thesis
      proof (rule disjE [OF ih])
        assume "\<exists>index'' pl''. init_string_loop tab (dropWhile isspace ?se) index' pl' =
            Return (index'', pl'') \<and> (registry_ok pl' \<longrightarrow> registry_ok pl'')"
        then obtain index'' pl'' where
          "init_string_loop tab (dropWhile isspace ?se) index' pl' = Return (index'', pl'')"
          "registry_ok pl' \<longrightarrow> registry_ok pl''" by blast
        with step ok have "init_string_loop tab ss index pl = Return (index'', pl'') \<and>
            (registry_ok pl \<longrightarrow> registry_ok pl'')" by simp
        then show ?thesis by blast
      next
        assume "\<exists>l. init_string_loop tab (dropWhile isspace ?se) index' pl' =
            Abort (could_not_parse l)"
        with step show ?thesis by simp
      qed
    qed
  qed
qed


lemma init_string_registry:
  assumes "ploidy_init_string tab str d = Return (Some t)"
  shows "registry_ok t"
proof (rule disjE [OF init_string_loop_result [of tab str "[]" "ploidy_new d"]])
  assume "\<exists>index' pl'. init_string_loop tab str [] (ploidy_new d) = Return (index', pl') \<and>
      (registry_ok (ploidy_new d) \<longrightarrow> registry_ok pl')"
  then obtain index' pl' where
    l: "init_string_loop tab str [] (ploidy_new d) = Return (index', pl')" and ok: "registry_ok pl'"
    using registry_new by blast
  from l assms have "t = pl'\<lparr>idx := index'\<rparr>"
    by (simp add: ploidy_init_string_def regidx_init_def regidx_insert_def)
  with ok show ?thesis by (simp add: registry_ok_def)
next
  assume "\<exists>l. init_string_loop tab str [] (ploidy_new d) = Abort (could_not_parse l)"
  with assms show ?thesis by (auto simp: ploidy_init_string_def regidx_init_def)
qed

lemma regidx_load_registry:
  "registry_ok pl \<Longrightarrow> regidx_load tab ls index pl = Return (res, pl') \<Longrightarrow> registry_ok pl'"
proof (induction ls arbitrary: index pl)
  case Nil
  then show ?case by (simp add: regidx_insert_def)
next
  case (Cons a ls)
  from Cons.prems(2) obtain r index1 pl1 where
    ins: "regidx_insert tab index (Some a) pl = Return (r, index1, pl1)"
    by (auto split: outcome.splits)
  have ok1: "registry_ok pl1" using regidx_insert_registry [OF Cons.prems(1) ins] .
  show ?case
  proof (cases "r = 0")
    case True
    with Cons.prems(2) ins have "regidx_load tab ls index1 pl1 = Return (res, pl')" by simp
    from Cons.IH [OF ok1 this] show ?thesis .
  next
    case False
    with Cons.prems(2) ins have "pl' = pl1" by simp
    with ok1 show ?thesis by simp
  qed
qed

lemma init_registry:
  assumes "ploidy_init tab f d = Return (Some t)"
  shows "registry_ok t"
proof -
  from assms obtain index pld where
    r: "regidx_init tab f (ploidy_new d) = Return (Some index, pld)" and t: "t = pld\<lparr>idx := index\<rparr>"
    by (auto simp: ploidy_init_def split: outcome.splits option.splits)
  have "registry_ok pld"
  proof (cases f)
    case NoFile
    with r have "pld = ploidy_new d" by (simp add: regidx_init_def)
    then show ?thesis by (simp add: registry_new)
  next
    case Unreadable
    with r show ?thesis by (simp add: regidx_init_def)
  next
    case (File ls)
    with r have "regidx_load tab ls [] (ploidy_new d) = Return (Some index, pld)"
      by (simp add: regidx_init_def)
    from regidx_load_registry [OF registry_new this] show ?thesis .
  qed
  with t show ?thesis by (simp add: registry_ok_def)
qed


text \<open>
  Claim C8. \<^verbatim>\<open>ploidy_add_sex\<close> is idempotent: a second call with the same name returns the
  same id and the table that the first call left, so the number of sex categories does
  not change and nothing is mutated. For every name that was never registered (it is not
  among the names the registry holds), \<^verbatim>\<open>ploidy_sex2id\<close> returns -1. The tables of both
  constructors satisfy \<open>registry_ok\<close> (\<open>init_string_registry\<close>, \<open>init_registry\<close>), and the
  parser and \<^verbatim>\<open>ploidy_add_sex\<close> keep it and add only the name they register
  (\<open>parse_sex_registry\<close>, \<open>add_sex_registry\<close>).
\<close>

theorem add_sex_idempotent:
  "ploidy_add_sex (snd (ploidy_add_sex pl name)) name = ploidy_add_sex pl name \<and>
   ploidy_nsex (snd (ploidy_add_sex (snd (ploidy_add_sex pl name)) name)) =
     ploidy_nsex (snd (ploidy_add_sex pl name)) \<and>
   (registry_ok pl \<and> other \<notin> set (id2sex pl) \<longrightarrow> ploidy_sex2id pl other = - 1)"
proof -
  obtain i pl' where a: "ploidy_add_sex pl name = (i, pl')" by (cases "ploidy_add_sex pl name")
  have 1: "ploidy_add_sex (snd (ploidy_add_sex pl name)) name = ploidy_add_sex pl name"
    using add_sex_again [OF a] a by simp
  have 3: "ploidy_sex2id pl other = - 1" if "registry_ok pl" "other \<notin> set (id2sex pl)"
  proof -
    from that have "khash_str2int_get (sex2id pl) other = None" by (rule unregistered_key)
    then show ?thesis by (simp add: ploidy_sex2id_def)
  qed
  from 1 3 show ?thesis by simp
qed

theorem add_sex_idempotent_witness:
  "ploidy_add_sex table_B ''U'' =
     (2, table_B\<lparr>nsex := 3, sex2id := [(''M'', 0), (''F'', 1), (''U'', 2)], id2sex := [''M'', ''F'', ''U'']\<rparr>) \<and>
   ploidy_add_sex (snd (ploidy_add_sex table_B ''U'')) ''U'' = ploidy_add_sex table_B ''U'' \<and>
   registry_ok table_B \<and> ''U'' \<notin> set (id2sex table_B) \<and> ploidy_sex2id table_B ''U'' = - 1"
proof -
  have h1: "registry_ok table_B" by code_simp
  have h2: "''U'' \<notin> set (id2sex table_B)" by code_simp
  have a: "ploidy_add_sex table_B ''U'' =
     (2, table_B\<lparr>nsex := 3, sex2id := [(''M'', 0), (''F'', 1), (''U'', 2)], id2sex := [''M'', ''F'', ''U'']\<rparr>)"
    by code_simp
  show ?thesis
    using h1 h2 a add_sex_idempotent [of table_B "''U''" "''U''"] by simp
qed




section \<open>Scenario B\<close>

lemma parse_line_M:
  assumes "tab ''chrX 0 155270560 M 1'' = (0, c, r)"
  shows "ploidy_parse tab ''chrX 0 155270560 M 1'' \<lparr>sex = 0, ploidy = 0\<rparr> (ploidy_new 2) =
     Return (0, c, r, \<lparr>sex = 0, ploidy = 1\<rparr>,
       \<lparr>nsex = 1, dflt = 2, min_pld = 1, max_pld = 2, idx = [],
        sex2id = [(''M'', 0)], id2sex = [''M'']\<rparr>)"
  by (simp add: ploidy_parse_def assms skip_space_def skip_field_def isspace_def isdigit_def
      eval_nat_numeral Let_def parse_sex_def khash_str2int_get_def khash_str2int_inc_def
      khash_str2int_init_def strtol_def LONG_MAX_def LONG_MIN_def update_bounds_def
      ploidy_new_def word_sless_alt)

lemma parse_line_F:
  assumes "tab ''chrX 0 155270560 F 2'' = (0, c, r)"
  shows "ploidy_parse tab ''chrX 0 155270560 F 2'' \<lparr>sex = 0, ploidy = 0\<rparr>
       \<lparr>nsex = 1, dflt = 2, min_pld = 1, max_pld = 2, idx = [],
        sex2id = [(''M'', 0)], id2sex = [''M'']\<rparr> =
     Return (0, c, r, \<lparr>sex = 1, ploidy = 2\<rparr>,
       \<lparr>nsex = 2, dflt = 2, min_pld = 1, max_pld = 2, idx = [],
        sex2id = [(''M'', 0), (''F'', 1)], id2sex = [''M'', ''F'']\<rparr>)"
  by (simp add: ploidy_parse_def assms skip_space_def skip_field_def isspace_def isdigit_def
      eval_nat_numeral Let_def parse_sex_def khash_str2int_get_def khash_str2int_inc_def
      khash_str2int_init_def strtol_def LONG_MAX_def LONG_MIN_def update_bounds_def
      word_sless_alt)

lemma scenario_B_table:
  assumes "tab ''chrX 0 155270560 M 1'' = (0, ''chrX'', r1)"
    and "tab ''chrX 0 155270560 F 2'' = (0, ''chrX'', r2)"
  shows "ploidy_init_string tab scenario_B 2 =
     Return (Some \<lparr>nsex = 2, dflt = 2, min_pld = 1, max_pld = 2,
        idx = [(''chrX'', r1, \<lparr>sex = 0, ploidy = 1\<rparr>), (''chrX'', r2, \<lparr>sex = 1, ploidy = 2\<rparr>)],
        sex2id = [(''M'', 0), (''F'', 1)], id2sex = [''M'', ''F'']\<rparr>)"
proof -
  have 1: "regidx_insert tab [] (Some ''chrX 0 155270560 M 1'') (ploidy_new 2) =
      Return (0, [(''chrX'', r1, \<lparr>sex = 0, ploidy = 1\<rparr>)],
        \<lparr>nsex = 1, dflt = 2, min_pld = 1, max_pld = 2, idx = [],
         sex2id = [(''M'', 0)], id2sex = [''M'']\<rparr>)"
    by (simp add: regidx_insert_def parse_line_M [of tab, OF assms(1)])
  have 2: "regidx_insert tab [(''chrX'', r1, \<lparr>sex = 0, ploidy = 1\<rparr>)] (Some ''chrX 0 155270560 F 2'')
        \<lparr>nsex = 1, dflt = 2, min_pld = 1, max_pld = 2, idx = [],
         sex2id = [(''M'', 0)], id2sex = [''M'']\<rparr> =
      Return (0, [(''chrX'', r1, \<lparr>sex = 0, ploidy = 1\<rparr>), (''chrX'', r2, \<lparr>sex = 1, ploidy = 2\<rparr>)],
        \<lparr>nsex = 2, dflt = 2, min_pld = 1, max_pld = 2, idx = [],
         sex2id = [(''M'', 0), (''F'', 1)], id2sex = [''M'', ''F'']\<rparr>)"
    by (simp add: regidx_insert_def parse_line_F [of tab, OF assms(2)])
  have 3: "init_string_loop tab ''chrX 0 155270560 F 2''
        [(''chrX'', r1, \<lparr>sex = 0, ploidy = 1\<rparr>)]
        \<lparr>nsex = 1, dflt = 2, min_pld = 1, max_pld = 2, idx = [],
         sex2id = [(''M'', 0)], id2sex = [''M'']\<rparr> =
      Return ([(''chrX'', r1, \<lparr>sex = 0, ploidy = 1\<rparr>), (''chrX'', r2, \<lparr>sex = 1, ploidy = 2\<rparr>)],
        \<lparr>nsex = 2, dflt = 2, min_pld = 1, max_pld = 2, idx = [],
         sex2id = [(''M'', 0), (''F'', 1)], id2sex = [''M'', ''F'']\<rparr>)"
    by (subst init_string_loop.simps) (simp add: isspace_def 2 init_string_loop_Nil)
  have 4: "init_string_loop tab scenario_B [] (ploidy_new 2) =
      Return ([(''chrX'', r1, \<lparr>sex = 0, ploidy = 1\<rparr>), (''chrX'', r2, \<lparr>sex = 1, ploidy = 2\<rparr>)],
        \<lparr>nsex = 2, dflt = 2, min_pld = 1, max_pld = 2, idx = [],
         sex2id = [(''M'', 0), (''F'', 1)], id2sex = [''M'', ''F'']\<rparr>)"
    by (subst init_string_loop.simps) (simp add: scenario_B_def isspace_def 1 3)
  show ?thesis
    by (simp add: ploidy_init_string_def regidx_init_def 4 regidx_insert_def)
qed


text \<open>
  Claim C7, as the code has it. For a table constructed with default ploidy 2 from the
  two records \<^verbatim>\<open>chrX 0 155270560 M 1\<close> and \<^verbatim>\<open>chrX 0 155270560 F 2\<close>, with any coordinate
  parser that accepts them on chrX with a region that contains position 5000, M has id 0
  and F id 1, and the query at (chrX, 5000) returns 1 with the per-sex vector [1, 2],
  min 1 and max 1: the record of F has the default ploidy and does not enter the bounds.
  A query on chr1, which has no region, returns 0 with the vector [2, 2].
\<close>

theorem scenario_B_query:
  assumes t1: "tab ''chrX 0 155270560 M 1'' = (0, ''chrX'', r1)"
    and t2: "tab ''chrX 0 155270560 F 2'' = (0, ''chrX'', r2)"
    and c1: "reg_start r1 \<le> 5000 \<and> 5000 \<le> reg_end r1"
    and c2: "reg_start r2 \<le> 5000 \<and> 5000 \<le> reg_end r2"
  shows "\<exists>t. ploidy_init_string tab scenario_B 2 = Return (Some t) \<and>
           ploidy_sex2id t ''M'' = 0 \<and> ploidy_sex2id t ''F'' = 1 \<and> ploidy_nsex t = 2 \<and>
           ploidy_query t ''chrX'' 5000 (Some [a, b]) (Some m) (Some x) =
             Inr \<lparr>q_ret = 1, q_sex2ploidy = Some [1, 2], q_min = Some 1, q_max = Some 1\<rparr> \<and>
           ploidy_query t ''chr1'' pos (Some [a, b]) (Some m) (Some x) =
             Inr \<lparr>q_ret = 0, q_sex2ploidy = Some [2, 2], q_min = Some 2, q_max = Some 2\<rparr>"
proof -
  let ?t = "\<lparr>nsex = 2, dflt = 2, min_pld = 1, max_pld = 2,
        idx = [(''chrX'', r1, \<lparr>sex = 0, ploidy = 1\<rparr>), (''chrX'', r2, \<lparr>sex = 1, ploidy = 2\<rparr>)],
        sex2id = [(''M'', 0), (''F'', 1)], id2sex = [''M'', ''F'']\<rparr>"
  have built: "ploidy_init_string tab scenario_B 2 = Return (Some ?t)"
    using t1 t2 by (rule scenario_B_table)
  have ids: "ploidy_sex2id ?t ''M'' = 0" "ploidy_sex2id ?t ''F'' = 1" "ploidy_nsex ?t = 2"
    by (simp_all add: ploidy_sex2id_def khash_str2int_get_def ploidy_nsex_def)
  have fill: "fill_dflt 0 2 2 [a, b] = Inr [2, 2]"
    by (simp add: fill_dflt_fits eval_nat_numeral)
  let ?i = "[(''chrX'', r1, \<lparr>sex = 0, ploidy = 1\<rparr>), (''chrX'', r2, \<lparr>sex = 1, ploidy = 2\<rparr>)]"
  have ov: "regidx_overlap ?i ''chrX'' 5000 5000 =
      (1, [(r1, \<lparr>sex = 0, ploidy = 1\<rparr>), (r2, \<lparr>sex = 1, ploidy = 2\<rparr>)])"
    using c1 c2 by (simp add: regidx_overlap_def)
  have loop: "query_loop 2 5000 [(r1, \<lparr>sex = 0, ploidy = 1\<rparr>), (r2, \<lparr>sex = 1, ploidy = 2\<rparr>)]
      (Some [2, 2], INT_MAX, - 1) = Inr (Some [1, 2], 1, 1)"
    using c1 c2
    by (simp add: query_loop_Cons query_loop_Nil store_def INT_MAX_def word_sless_alt)
  have q1: "ploidy_query ?t ''chrX'' 5000 (Some [a, b]) (Some m) (Some x) =
      Inr \<lparr>q_ret = 1, q_sex2ploidy = Some [1, 2], q_min = Some 1, q_max = Some 1\<rparr>"
    by (simp add: ploidy_query_def ov fill_opt_def fill loop)
  have nov: "regidx_overlap ?i ''chr1'' pos pos = (0, [])"
    by (simp add: regidx_overlap_def)
  have q2: "ploidy_query ?t ''chr1'' pos (Some [a, b]) (Some m) (Some x) =
      Inr \<lparr>q_ret = 0, q_sex2ploidy = Some [2, 2], q_min = Some 2, q_max = Some 2\<rparr>"
    by (simp add: ploidy_query_def nov fill_opt_def fill)
  from built ids q1 q2 show ?thesis by blast
qed

theorem scenario_B_query_witness:
  "regidx_parse_tab ''chrX 0 155270560 M 1'' = (0, ''chrX'', \<lparr>reg_start = 0, reg_end = 155270560\<rparr>) \<and>
   regidx_parse_tab ''chrX 0 155270560 F 2'' = (0, ''chrX'', \<lparr>reg_start = 0, reg_end = 155270560\<rparr>) \<and>
   (\<exists>t. ploidy_init_string regidx_parse_tab scenario_B 2 = Return (Some t) \<and>
      ploidy_sex2id t ''M'' = 0 \<and> ploidy_sex2id t ''F'' = 1 \<and> ploidy_nsex t = 2 \<and>
      ploidy_query t ''chrX'' 5000 (Some [0, 0]) (Some 0) (Some 0) =
        Inr \<lparr>q_ret = 1, q_sex2ploidy = Some [1, 2], q_min = Some 1, q_max = Some 1\<rparr> \<and>
      ploidy_query t ''chr1'' 5000 (Some [0, 0]) (Some 0) (Some 0) =
        Inr \<lparr>q_ret = 0, q_sex2ploidy = Some [2, 2], q_min = Some 2, q_max = Some 2\<rparr>)"
proof -
  have h1: "regidx_parse_tab ''chrX 0 155270560 M 1'' =
      (0, ''chrX'', \<lparr>reg_start = 0, reg_end = 155270560\<rparr>)" by code_simp
  have h2: "regidx_parse_tab ''chrX 0 155270560 F 2'' =
      (0, ''chrX'', \<lparr>reg_start = 0, reg_end = 155270560\<rparr>)" by code_simp
  have h3: "reg_start \<lparr>reg_start = 0, reg_end = 155270560\<rparr> \<le> 5000 \<and>
      5000 \<le> reg_end \<lparr>reg_start = 0, reg_end = 155270560\<rparr>" by simp
  show ?thesis
    using h1 h2 scenario_B_query [of regidx_parse_tab, OF h1 h2 h3 h3, of 0 0 0 0 5000]
    by simp
qed

text \<open>
  Claim C7 as it is stated fails: in the table built from scenario B the query at
  (chrX, 5000) writes 1 to the max output, not 2.
\<close>

theorem scenario_B_max_counterexample:
  "ploidy_init_string regidx_parse_tab scenario_B 2 = Return (Some table_B) \<and>
   ploidy_sex2id table_B ''M'' = 0 \<and> ploidy_sex2id table_B ''F'' = 1 \<and>
   ploidy_query table_B ''chrX'' 5000 (Some [0, 0]) (Some 0) (Some 0) =
     Inr \<lparr>q_ret = 1, q_sex2ploidy = Some [1, 2], q_min = Some 1, q_max = Some 1\<rparr> \<and>
   ploidy_query table_B ''chrX'' 5000 (Some [0, 0]) (Some 0) (Some 0) \<noteq>
     Inr \<lparr>q_ret = 1, q_sex2ploidy = Some [1, 2], q_min = Some 1, q_max = Some 2\<rparr>"
  by code_simp

end
